theory Spec2Isabelle
  imports
    Complex_Main
    "HOL-Library.Sublist"
    "HOL-Library.Char_ord"
    "HOL-Library.List_Lexorder"
    "HOL-Library.Product_Lexorder"
begin

section \<open>Text primitives\<close>

text \<open>
  A Python \<open>str\<close> is modelled as \<open>string\<close>, a list of characters with code points below
  256, ordered by code point (\<open>Char_ord\<close>, lexicographically on strings). The
  classification of whitespace and of line boundaries and the case conversions follow
  Python for these code points. Two characters have an upper-case form above 255, the
  micro sign \<open>0xB5\<close> and the letter \<open>0xFF\<close>: \<open>upper\<close> and \<open>title\<close> leave them as they
  are, and the statement about the text of the group labels excludes them.
\<close>

abbreviation NL :: char where "NL \<equiv> CHR 0x0A"
abbreviation CR :: char where "CR \<equiv> CHR 0x0D"
abbreviation TAB :: char where "TAB \<equiv> CHR 0x09"
abbreviation BACKSLASH :: char where "BACKSLASH \<equiv> CHR 0x5C"

definition is_space :: "char \<Rightarrow> bool" where
  \<comment> \<open>\<open>str.isspace\<close> of one character, which is also the regular expression class \<open>\s\<close>\<close>
  "is_space c \<longleftrightarrow>
     c \<in> set [TAB, NL, CHR 0x0B, CHR 0x0C, CR, CHR 0x1C, CHR 0x1D, CHR 0x1E, CHR 0x1F,
              CHR '' '', CHR 0x85, CHR 0xA0]"

definition is_linebreak :: "char \<Rightarrow> bool" where
  \<comment> \<open>the line boundaries of \<open>str.splitlines\<close>\<close>
  "is_linebreak c \<longleftrightarrow>
     c \<in> set [NL, CR, CHR 0x0B, CHR 0x0C, CHR 0x1C, CHR 0x1D, CHR 0x1E, CHR 0x85]"

definition is_blank_tab :: "char \<Rightarrow> bool" where
  \<comment> \<open>the regular expression class \<open>[ \t]\<close>\<close>
  "is_blank_tab c \<longleftrightarrow> c = CHR '' '' \<or> c = TAB"

definition lstrip :: "string \<Rightarrow> string" where
  "lstrip s = dropWhile is_space s"

definition rstrip :: "string \<Rightarrow> string" where
  "rstrip s = rev (dropWhile is_space (rev s))"

definition strip :: "string \<Rightarrow> string" where
  "strip s = rstrip (lstrip s)"

definition lstrip_chars :: "string \<Rightarrow> string \<Rightarrow> string" where
  \<comment> \<open>\<open>s.lstrip(chars)\<close>: drops every leading character that occurs in \<open>chars\<close>\<close>
  "lstrip_chars chars s = dropWhile (\<lambda>c. c \<in> set chars) s"

definition replace_char :: "char \<Rightarrow> string \<Rightarrow> string \<Rightarrow> string" where
  \<comment> \<open>\<open>s.replace(old, new)\<close> for a one-character \<open>old\<close>\<close>
  "replace_char old new s = concat (map (\<lambda>c. if c = old then new else [c]) s)"

fun join :: "string \<Rightarrow> string list \<Rightarrow> string" where
  "join sep [] = []"
| "join sep [x] = x"
| "join sep (x # y # ys) = x @ sep @ join sep (y # ys)"

fun split_on :: "char \<Rightarrow> string \<Rightarrow> string list" where
  \<comment> \<open>\<open>s.split(d)\<close> for a one-character separator\<close>
  "split_on d [] = [[]]"
| "split_on d (c # cs) =
     (if c = d then [] # split_on d cs
      else (case split_on d cs of [] \<Rightarrow> [[c]] | l # ls \<Rightarrow> (c # l) # ls))"

fun splitlines_from :: "string \<Rightarrow> string \<Rightarrow> string list" where
  \<comment> \<open>the first argument is the line read so far\<close>
  "splitlines_from cur [] = (if cur = [] then [] else [cur])"
| "splitlines_from cur [c] = (if is_linebreak c then [cur] else [cur @ [c]])"
| "splitlines_from cur (c # d # cs) =
     (if c = CR \<and> d = NL then cur # splitlines_from [] cs
      else if is_linebreak c then cur # splitlines_from [] (d # cs)
      else splitlines_from (cur @ [c]) (d # cs))"

definition splitlines :: "string \<Rightarrow> string list" where
  "splitlines s = splitlines_from [] s"

definition is_upper :: "char \<Rightarrow> bool" where
  \<comment> \<open>the characters that \<open>str.lower\<close> changes: \<open>A\<close> to \<open>Z\<close> and the capital letters from
      \<open>0xC0\<close> to \<open>0xDE\<close>, the multiplication sign \<open>0xD7\<close> apart\<close>
  "is_upper c \<longleftrightarrow>
     (CHR ''A'' \<le> c \<and> c \<le> CHR ''Z'') \<or> (CHR 0xC0 \<le> c \<and> c \<le> CHR 0xDE \<and> c \<noteq> CHR 0xD7)"

definition is_lower :: "char \<Rightarrow> bool" where
  \<comment> \<open>the characters with an upper-case form of one character below 256: \<open>a\<close> to \<open>z\<close> and
      the small letters from \<open>0xE0\<close> to \<open>0xFE\<close>, the division sign \<open>0xF7\<close> apart\<close>
  "is_lower c \<longleftrightarrow>
     (CHR ''a'' \<le> c \<and> c \<le> CHR ''z'') \<or> (CHR 0xE0 \<le> c \<and> c \<le> CHR 0xFE \<and> c \<noteq> CHR 0xF7)"

definition is_cased :: "char \<Rightarrow> bool" where
  \<comment> \<open>the cased characters: the letters above, the two ordinal indicators, the micro
      sign, the sharp s and \<open>0xFF\<close>\<close>
  "is_cased c \<longleftrightarrow>
     is_upper c \<or> is_lower c \<or> c \<in> set [CHR 0xAA, CHR 0xB5, CHR 0xBA, CHR 0xDF, CHR 0xFF]"

definition lower_char :: "char \<Rightarrow> char" where
  "lower_char c = (if is_upper c then char_of (of_char c + (32::nat)) else c)"

definition upper_char :: "char \<Rightarrow> char" where
  "upper_char c = (if is_lower c then char_of (of_char c - (32::nat)) else c)"

definition upper_full :: "char \<Rightarrow> string" where
  \<comment> \<open>the upper-case form; that of the sharp s \<open>0xDF\<close> has two characters\<close>
  "upper_full c = (if c = CHR 0xDF then ''SS'' else [upper_char c])"

definition title_full :: "char \<Rightarrow> string" where
  \<comment> \<open>the title-case form\<close>
  "title_full c = (if c = CHR 0xDF then ''Ss'' else [upper_char c])"

definition lower :: "string \<Rightarrow> string" where
  "lower s = map lower_char s"

definition upper :: "string \<Rightarrow> string" where
  "upper s = concat (map upper_full s)"

fun title_from :: "bool \<Rightarrow> string \<Rightarrow> string" where
  \<comment> \<open>\<open>str.title\<close>: the flag says whether the previous character was a cased one\<close>
  "title_from prev [] = []"
| "title_from prev (c # cs) =
     (if prev then [lower_char c] else title_full c) @ title_from (is_cased c) cs"

definition title :: "string \<Rightarrow> string" where
  "title s = title_from False s"

fun universal_newlines :: "string \<Rightarrow> string" where
  \<comment> \<open>reading in text mode: \<open>\r\n\<close> and \<open>\r\<close> become \<open>\n\<close>\<close>
  "universal_newlines [] = []"
| "universal_newlines [c] = (if c = CR then [NL] else [c])"
| "universal_newlines (c # d # cs) =
     (if c = CR \<and> d = NL then NL # universal_newlines cs
      else if c = CR then NL # universal_newlines (d # cs)
      else c # universal_newlines (d # cs))"

section \<open>Paths and the file system\<close>

text \<open>
  A path is the list of the segments of a resolved absolute path (\<open>/a/b.md\<close> is
  \<open>[''a'', ''b.md'']\<close>). The file system is the list of its nodes in the order in which
  a directory walk enumerates them. A file holds its modification time and its decoded
  text as it is stored, or \<open>None\<close> when reading it raises. \<open>read_text\<close> reads in text
  mode and so translates the stored line ends; \<open>write_text\<close> stores the text as it is
  given (POSIX).
\<close>

type_synonym path = "string list"

datatype node = Dir | File (mtime: rat) (data: "string option")

type_synonym filesystem = "(path \<times> node) list"

definition exists :: "filesystem \<Rightarrow> path \<Rightarrow> bool" where
  "exists fs p \<longleftrightarrow> map_of fs p \<noteq> None"

definition is_file :: "filesystem \<Rightarrow> path \<Rightarrow> bool" where
  "is_file fs p = (case map_of fs p of Some (File t d) \<Rightarrow> True | _ \<Rightarrow> False)"

definition read_text :: "filesystem \<Rightarrow> path \<Rightarrow> string option" where
  \<comment> \<open>\<open>None\<close>: the read raises (no such file, a directory, no permission)\<close>
  "read_text fs p =
     (case map_of fs p of Some (File t (Some d)) \<Rightarrow> Some (universal_newlines d) | _ \<Rightarrow> None)"

definition write_text :: "filesystem \<Rightarrow> path \<Rightarrow> string \<Rightarrow> rat \<Rightarrow> filesystem" where
  \<comment> \<open>the last argument is the modification time the write leaves\<close>
  "write_text fs p s t =
     (if exists fs p
      then map (\<lambda>(q, n). if q = p then (q, File t (Some s)) else (q, n)) fs
      else fs @ [(p, File t (Some s))])"

definition rglob :: "filesystem \<Rightarrow> path \<Rightarrow> path list" where
  \<comment> \<open>\<open>src_dir.rglob("*")\<close>: every path below the directory\<close>
  "rglob fs d = filter (\<lambda>p. strict_prefix d p) (map fst fs)"

definition name :: "path \<Rightarrow> string" where
  "name p = (if p = [] then [] else last p)"

definition parent :: "path \<Rightarrow> path" where
  "parent p = butlast p"

definition rfind :: "char \<Rightarrow> string \<Rightarrow> int" where
  \<comment> \<open>\<open>s.rfind(c)\<close>: the last index of \<open>c\<close>, or \<open>-1\<close>\<close>
  "rfind c s =
     (if c \<in> set s then int (length s) - 1 - int (length (takeWhile (\<lambda>x. x \<noteq> c) (rev s)))
      else - 1)"

definition path_suffix :: "path \<Rightarrow> string" where
  "path_suffix p =
     (let n = name p; i = rfind (CHR ''.'') n
      in if 0 < i \<and> i < int (length n) - 1 then drop (nat i) n else [])"

definition stem :: "path \<Rightarrow> string" where
  "stem p =
     (let n = name p; i = rfind (CHR ''.'') n
      in if 0 < i \<and> i < int (length n) - 1 then take (nat i) n else n)"

definition as_posix :: "path \<Rightarrow> string" where
  "as_posix p = CHR ''/'' # join ''/'' p"

definition relative_to :: "path \<Rightarrow> path \<Rightarrow> path option" where
  \<comment> \<open>\<open>None\<close>: \<open>ValueError\<close>, the path is not below the other\<close>
  "relative_to p d = (if prefix d p then Some (drop (length d) p) else None)"

definition relpath :: "path \<Rightarrow> path \<Rightarrow> string" where
  \<comment> \<open>\<open>os.path.relpath(path, start)\<close> on absolute, normalised POSIX paths\<close>
  "relpath p start =
     (let i = length (longest_common_prefix start p);
          rel_list = replicate (length start - i) ''..'' @ drop i p
      in if rel_list = [] then ''.'' else join ''/'' rel_list)"

section \<open>Arguments\<close>

datatype sort_mode = SortName | SortPath | SortMtime
datatype group_mode = GroupNone | GroupSubdir
datatype case_mode = CaseNone | CaseTitle | CaseUpper | CaseLower

text \<open>
  The parsed arguments. \<open>src_dir\<close> and \<open>target_file\<close> are the resolved paths that \<open>main\<close>
  computes from the options of the same names.
\<close>

record args =
  src_dir :: path
  target_file :: path
  marker_start :: string
  marker_end :: string
  exclude :: "string list"
  extensions :: string
  sort_by :: sort_mode
  no_fail_on_change :: bool
  group_by :: group_mode
  group_depth :: int
  group_heading_level :: int
  group_title_case :: case_mode

section \<open>File discovery\<close>

definition normalize_glob :: "string \<Rightarrow> string" where
  "normalize_glob pat = lstrip_chars ''./'' (replace_char BACKSLASH ''/'' pat)"

subsection \<open>Shell-style matching of the standard library\<close>

text \<open>
  \<open>fnmatch.fnmatch\<close> belongs to the Python library, not to this repository. It is
  modelled from the library's documentation and its translation of a pattern (on POSIX,
  where case normalisation is the identity): \<open>*\<close> matches everything, \<open>?\<close> any single
  character, \<open>[seq]\<close> any character in \<open>seq\<close>, \<open>[!seq]\<close> any character not in \<open>seq\<close>; in
  \<open>seq\<close>, \<open>a-b\<close> is the range from \<open>a\<close> to \<open>b\<close>, empty when \<open>a\<close> is above \<open>b\<close>; a \<open>[\<close> with
  no closing \<open>]\<close> is a literal; the whole name must match.
\<close>

datatype glob_item = Single char | Range char char

datatype glob_tok = Star | AnyChar | Lit char | CharSet bool "glob_item list"

definition bracket_body :: "string \<Rightarrow> (string \<times> string) option" where
  \<comment> \<open>the text between \<open>[\<close> and its closing \<open>]\<close>, and the pattern after it; a \<open>]\<close> right
      after \<open>[\<close> or \<open>[!\<close> does not close\<close>
  "bracket_body r =
     (let neg = (if r \<noteq> [] \<and> hd r = CHR ''!'' then ''!'' else []);
          r1 = drop (length neg) r;
          fst_close = (if r1 \<noteq> [] \<and> hd r1 = CHR '']'' then '']'' else []);
          r2 = drop (length fst_close) r1;
          body = takeWhile (\<lambda>c. c \<noteq> CHR '']'') r2;
          r3 = dropWhile (\<lambda>c. c \<noteq> CHR '']'') r2
      in if r3 = [] then None else Some (neg @ fst_close @ body, tl r3))"

fun set_items :: "string \<Rightarrow> glob_item list" where
  "set_items (a # m # b # cs) =
     (if m = CHR ''-'' then Range a b # set_items cs else Single a # set_items (m # b # cs))"
| "set_items (a # cs) = Single a # set_items cs"
| "set_items [] = []"

fun empty_range :: "glob_item \<Rightarrow> bool" where
  "empty_range (Single a) = False"
| "empty_range (Range a b) = (b < a)"

definition char_set :: "string \<Rightarrow> glob_tok" where
  \<comment> \<open>The library drops the empty ranges from the text of the set before it looks for
      the leading \<open>!\<close>: a set that starts with empty ranges followed by \<open>!\<close> is negated
      too, and a range that this \<open>!\<close> would start is read as its two other characters.\<close>
  "char_set stuff =
     (if stuff \<noteq> [] \<and> hd stuff = CHR ''!'' then CharSet True (set_items (tl stuff))
      else
        (let items = set_items stuff; rest = dropWhile empty_range items
         in if rest = items then CharSet False items
            else (case rest of
                    Single c # others \<Rightarrow>
                      if c = CHR ''!'' then CharSet True others else CharSet False items
                  | Range a b # others \<Rightarrow>
                      if a = CHR ''!'' then CharSet True (Single (CHR ''-'') # Single b # others)
                      else CharSet False items
                  | [] \<Rightarrow> CharSet False items)))"

lemma bracket_body_shorter: "bracket_body r = Some (stuff, rest) \<Longrightarrow> length rest < length r"
proof -
  assume a: "bracket_body r = Some (stuff, rest)"
  define neg where "neg = (if r \<noteq> [] \<and> hd r = CHR ''!'' then ''!'' else [])"
  define r1 where "r1 = drop (length neg) r"
  define fc where "fc = (if r1 \<noteq> [] \<and> hd r1 = CHR '']'' then '']'' else [])"
  define r2 where "r2 = drop (length fc) r1"
  define r3 where "r3 = dropWhile (\<lambda>c. c \<noteq> CHR '']'') r2"
  have b: "bracket_body r =
      (if r3 = [] then None
       else Some (neg @ fc @ takeWhile (\<lambda>c. c \<noteq> CHR '']'') r2, tl r3))"
    unfolding bracket_body_def Let_def r3_def r2_def fc_def r1_def neg_def by (rule refl)
  have ne: "r3 \<noteq> []"
  proof
    assume "r3 = []"
    with a b show False by simp
  qed
  with a b have "rest = tl r3" by simp
  with ne have "length rest < length r3" by (cases r3) simp_all
  also have "length r3 \<le> length r2" unfolding r3_def by (rule length_dropWhile_le)
  also have "length r2 \<le> length r1" unfolding r2_def by simp
  also have "length r1 \<le> length r" unfolding r1_def by simp
  finally show ?thesis .
qed

function glob_tokens :: "string \<Rightarrow> glob_tok list" where
  "glob_tokens [] = []"
| "glob_tokens (c # cs) =
     (if c = CHR ''*'' then Star # glob_tokens cs
      else if c = CHR ''?'' then AnyChar # glob_tokens cs
      else if c = CHR ''['' then
        (case bracket_body cs of
           None \<Rightarrow> Lit c # glob_tokens cs
         | Some (stuff, rest) \<Rightarrow> char_set stuff # glob_tokens rest)
      else Lit c # glob_tokens cs)"
  by pat_completeness auto
termination
  by (relation "measure length") (auto dest: bracket_body_shorter)

fun in_item :: "char \<Rightarrow> glob_item \<Rightarrow> bool" where
  "in_item c (Single a) = (c = a)"
| "in_item c (Range a b) = (a \<le> c \<and> c \<le> b)"

fun glob_match :: "glob_tok list \<Rightarrow> string \<Rightarrow> bool" where
  "glob_match [] [] = True"
| "glob_match [] (c # cs) = False"
| "glob_match (Star # ts) [] = glob_match ts []"
| "glob_match (Star # ts) (c # cs) = (glob_match ts (c # cs) \<or> glob_match (Star # ts) cs)"
| "glob_match (AnyChar # ts) [] = False"
| "glob_match (AnyChar # ts) (c # cs) = glob_match ts cs"
| "glob_match (Lit a # ts) [] = False"
| "glob_match (Lit a # ts) (c # cs) = (c = a \<and> glob_match ts cs)"
| "glob_match (CharSet neg items # ts) [] = False"
| "glob_match (CharSet neg items # ts) (c # cs) =
     ((neg \<noteq> list_ex (in_item c) items) \<and> glob_match ts cs)"

definition fnmatch :: "string \<Rightarrow> string \<Rightarrow> bool" where
  "fnmatch nm pat = glob_match (glob_tokens pat) nm"

subsection \<open>The walk\<close>

definition rel_posix :: "path \<Rightarrow> path \<Rightarrow> string" where
  \<comment> \<open>\<open>p.relative_to(src_dir).as_posix()\<close> for a path below \<open>src_dir\<close>\<close>
  "rel_posix p d = join ''/'' (drop (length d) p)"

definition iter_markdown_files :: "filesystem \<Rightarrow> path \<Rightarrow> string list \<Rightarrow> string list \<Rightarrow> path list" where
  "iter_markdown_files fs d ex_patterns exts =
     (let rel_ex_patterns = map normalize_glob ex_patterns
      in filter (\<lambda>p. is_file fs p
                    \<and> lstrip_chars ''.'' (path_suffix p) \<in> set exts
                    \<and> \<not> list_ex (\<lambda>pat. fnmatch (rel_posix p d) pat) rel_ex_patterns)
           (rglob fs d))"

section \<open>Title derivation\<close>

text \<open>
  \<open>H1_REGEX\<close> is \<open>^[ \t]*#[ \t]+(.+?)\s*$\<close> in multi-line mode. The functions below are the
  backtracking search for it, one per part of the expression, each trying its
  alternatives in the order of the regular expression engine and returning the text of
  group 1 of the first success.
\<close>

fun h1_tail :: "string \<Rightarrow> bool" where
  \<comment> \<open>\<open>\s*$\<close>: whitespace, then the end of the text or a position before a newline\<close>
  "h1_tail [] = True"
| "h1_tail (c # cs) = ((is_space c \<and> h1_tail cs) \<or> c = NL)"

fun h1_group :: "string \<Rightarrow> string option" where
  \<comment> \<open>\<open>(.+?)\<close> and what follows: the shortest run of one or more characters other than
      newline after which the tail matches\<close>
  "h1_group [] = None"
| "h1_group (c # cs) =
     (if c = NL then None
      else if h1_tail cs then Some [c]
      else map_option ((#) c) (h1_group cs))"

fun h1_blanks1 :: "string \<Rightarrow> string option" where
  \<comment> \<open>\<open>[ \t]+\<close> and what follows: the longest run first, then shorter ones\<close>
  "h1_blanks1 [] = None"
| "h1_blanks1 (c # cs) =
     (if is_blank_tab c
      then (case h1_blanks1 cs of Some g \<Rightarrow> Some g | None \<Rightarrow> h1_group cs)
      else None)"

fun h1_line_start :: "string \<Rightarrow> string option" where
  \<comment> \<open>\<open>[ \t]*#\<close> and what follows, at the start of a line\<close>
  "h1_line_start [] = None"
| "h1_line_start (c # cs) =
     (case (if is_blank_tab c then h1_line_start cs else None) of
        Some g \<Rightarrow> Some g
      | None \<Rightarrow> if c = CHR ''#'' then h1_blanks1 cs else None)"

fun h1_search :: "bool \<Rightarrow> string \<Rightarrow> string option" where
  \<comment> \<open>\<open>search\<close>: every position from the left; \<open>^\<close> holds at the start of the text and
      after a newline (the flag)\<close>
  "h1_search bol [] = (if bol then h1_line_start [] else None)"
| "h1_search bol (c # cs) =
     (case (if bol then h1_line_start (c # cs) else None) of
        Some g \<Rightarrow> Some g
      | None \<Rightarrow> h1_search (c = NL) cs)"

definition first_h1 :: "string \<Rightarrow> string option" where
  "first_h1 text = map_option strip (h1_search True text)"

definition title_for :: "filesystem \<Rightarrow> path \<Rightarrow> string" where
  "title_for fs p =
     (case read_text fs p of
        None \<Rightarrow> stem p
      | Some text \<Rightarrow>
          (case first_h1 text of
             Some (c # cs) \<Rightarrow> c # cs
           | _ \<Rightarrow>
              (case find (\<lambda>t. t \<noteq> []) (map strip (splitlines text)) of
                 Some t \<Rightarrow> t
               | None \<Rightarrow> stem p)))"

section \<open>Sorting, grouping and rendering\<close>

definition sort_key_of :: "sort_mode \<Rightarrow> filesystem \<Rightarrow> path \<Rightarrow> rat \<times> string" where
  \<comment> \<open>\<open>sort_key\<close>; the one-element tuples of the name and path modes carry the time 0\<close>
  "sort_key_of m fs p =
     (case m of
        SortMtime \<Rightarrow>
          (case map_of fs p of
             Some (File t d) \<Rightarrow> (t, lower (name p))
           | _ \<Rightarrow> (0, lower (name p)))
      | SortPath \<Rightarrow> (0, lower (as_posix p))
      | SortName \<Rightarrow> (0, lower (name p)))"

definition apply_case :: "string \<Rightarrow> case_mode \<Rightarrow> string" where
  "apply_case s m =
     (case m of
        CaseTitle \<Rightarrow> title (replace_char (CHR ''_'') '' '' (replace_char (CHR ''-'') '' '' s))
      | CaseUpper \<Rightarrow> upper s
      | CaseLower \<Rightarrow> lower s
      | CaseNone \<Rightarrow> s)"

definition slice_to :: "int \<Rightarrow> 'a list \<Rightarrow> 'a list" where
  \<comment> \<open>\<open>xs[:d]\<close>; a negative \<open>d\<close> counts from the end\<close>
  "slice_to d xs = (if 0 \<le> d then take (nat d) xs else take (length xs - nat (- d)) xs)"

definition group_key_for :: "path \<Rightarrow> path \<Rightarrow> int \<Rightarrow> string option" where
  \<comment> \<open>\<open>None\<close>: \<open>relative_to\<close> raises\<close>
  "group_key_for p d depth =
     (case relative_to p d of
        None \<Rightarrow> None
      | Some rel_parts \<Rightarrow>
          (let dirs = butlast rel_parts
           in if dirs = [] then Some [] else Some (join ''/'' (slice_to depth dirs))))"

definition list_item :: "filesystem \<Rightarrow> path \<Rightarrow> path \<Rightarrow> string" where
  "list_item fs target_dir f =
     (let link_title = title_for fs f;
          rel_link = relpath f target_dir;
          safe_title = replace_char (CHR '']'') [BACKSLASH, CHR '']'']
                         (replace_char (CHR ''['') [BACKSLASH, CHR ''[''] link_title)
      in ''- ['' @ safe_title @ '']('' @ rel_link @ '')'')"

text \<open>The dictionary \<open>groups\<close> keeps its keys in the order of their first insertion.\<close>

type_synonym groups = "(string \<times> path list) list"

fun setdefault_append :: "string \<Rightarrow> path \<Rightarrow> groups \<Rightarrow> groups" where
  \<comment> \<open>\<open>groups.setdefault(key, []).append(f)\<close>\<close>
  "setdefault_append key f [] = [(key, [f])]"
| "setdefault_append key f ((k, v) # g) =
     (if k = key then (k, v @ [f]) # g else (k, v) # setdefault_append key f g)"

fun group_files :: "path \<Rightarrow> int \<Rightarrow> path list \<Rightarrow> groups \<Rightarrow> groups option" where
  "group_files d depth [] g = Some g"
| "group_files d depth (f # fs) g =
     (case group_key_for f d depth of
        None \<Rightarrow> None
      | Some key \<Rightarrow> group_files d depth fs (setdefault_append key f g))"

definition group_title :: "string \<Rightarrow> case_mode \<Rightarrow> string" where
  "group_title key m = apply_case (if key \<noteq> [] then key else ''Misc'') m"

definition group_header :: "int \<Rightarrow> case_mode \<Rightarrow> string \<Rightarrow> string" where
  "group_header level m key = replicate (nat (max 1 level)) (CHR ''#'') @ '' '' @ group_title key m"

definition group_members :: "groups \<Rightarrow> string \<Rightarrow> path list" where
  \<comment> \<open>\<open>groups[key]\<close>, read only for keys of the dictionary\<close>
  "group_members g key = (case map_of g key of Some v \<Rightarrow> v | None \<Rightarrow> [])"

definition group_lines :: "filesystem \<Rightarrow> path \<Rightarrow> int \<Rightarrow> case_mode \<Rightarrow> groups \<Rightarrow> string list" where
  \<comment> \<open>the list \<open>out\<close> after the loop over the sorted keys\<close>
  "group_lines fs target_dir level m g =
     concat (map (\<lambda>key. group_header level m key
                          # map (list_item fs target_dir) (group_members g key) @ [[]])
                 (sort_key lower (map fst g)))"

definition build_list_markdown ::
  "filesystem \<Rightarrow> path list \<Rightarrow> path \<Rightarrow> path \<Rightarrow> group_mode \<Rightarrow> int \<Rightarrow> int \<Rightarrow> case_mode \<Rightarrow> string option" where
  \<comment> \<open>\<open>None\<close>: an exception of \<open>group_key_for\<close> passes through\<close>
  "build_list_markdown fs files tgt d gby depth level m =
     (let target_dir = parent tgt
      in case gby of
           GroupNone \<Rightarrow>
             (let lines = map (list_item fs target_dir) files
              in Some (join [NL] lines @ (if lines \<noteq> [] then [NL] else [])))
         | GroupSubdir \<Rightarrow>
             (case group_files d depth files [] of
                None \<Rightarrow> None
              | Some g \<Rightarrow>
                  (let out = group_lines fs target_dir level m g
                   in Some (rstrip (join [NL] out) @ (if out \<noteq> [] then [NL] else [])))))"

section \<open>Marker substitution\<close>

text \<open>
  The pattern is \<open>(start)(.*?)end\<close> with both markers escaped, in dot-all mode.
  \<open>find_end\<close> is the lazy \<open>.*?\<close> followed by the end marker, \<open>match_here\<close> the match at one
  position (it returns the length of the match), \<open>search_markers\<close> the search from the
  left; it returns \<open>m.start(1)\<close> and \<open>m.end()\<close>.
\<close>

datatype error = MarkersNotFound

fun find_end :: "string \<Rightarrow> string \<Rightarrow> nat option" where
  "find_end e [] = (if prefix e [] then Some 0 else None)"
| "find_end e (c # cs) =
     (if prefix e (c # cs) then Some 0 else map_option Suc (find_end e cs))"

definition match_here :: "string \<Rightarrow> string \<Rightarrow> string \<Rightarrow> nat option" where
  "match_here st e s =
     (if prefix st s
      then map_option (\<lambda>k. length st + k + length e) (find_end e (drop (length st) s))
      else None)"

fun search_markers :: "string \<Rightarrow> string \<Rightarrow> string \<Rightarrow> (nat \<times> nat) option" where
  "search_markers st e [] = map_option (Pair 0) (match_here st e [])"
| "search_markers st e (c # cs) =
     (case match_here st e (c # cs) of
        Some j \<Rightarrow> Some (0, j)
      | None \<Rightarrow> map_option (\<lambda>(i, j). (Suc i, Suc j)) (search_markers st e cs))"

definition replace_between_markers ::
  "string \<Rightarrow> string \<Rightarrow> string \<Rightarrow> string \<Rightarrow> error + (string \<times> bool)" where
  "replace_between_markers content st e replacement =
     (case search_markers st e content of
        None \<Rightarrow> Inl MarkersNotFound
      | Some (i, j) \<Rightarrow>
          (let before = take i content;
               after = drop j content;
               new = before @ st @ [NL] @ replacement @ e @ after
           in Inr (new, new \<noteq> content)))"

section \<open>The run\<close>

datatype report = SourceDirNotFound | TargetFileNotFound | MarkersMissing | Updated | NoChangesNeeded

datatype outcome = Exit nat report | Uncaught

definition parse_extensions :: "string \<Rightarrow> string list" where
  "parse_extensions s = filter (\<lambda>e. e \<noteq> []) (map strip (split_on (CHR '','') s))"

definition discovered :: "args \<Rightarrow> filesystem \<Rightarrow> path list" where
  \<comment> \<open>the sorted list \<open>files\<close> of \<open>main\<close>\<close>
  "discovered a fs =
     sort_key (sort_key_of (sort_by a) fs)
       (iter_markdown_files fs (src_dir a) (exclude a) (parse_extensions (extensions a)))"

definition rendered :: "args \<Rightarrow> filesystem \<Rightarrow> string option" where
  \<comment> \<open>the fragment \<open>list_md\<close> of \<open>main\<close>\<close>
  "rendered a fs =
     build_list_markdown fs (discovered a fs) (target_file a) (src_dir a)
       (group_by a) (group_depth a) (group_heading_level a) (group_title_case a)"

definition main :: "args \<Rightarrow> filesystem \<Rightarrow> rat \<Rightarrow> outcome \<times> filesystem" where
  \<comment> \<open>the last argument is the time of the write; the result is the exit and the file
      system the run leaves\<close>
  "main a fs now =
     (if \<not> exists fs (src_dir a) then (Exit 2 SourceDirNotFound, fs)
      else if \<not> exists fs (target_file a) then (Exit 2 TargetFileNotFound, fs)
      else
        (case rendered a fs of
           None \<Rightarrow> (Uncaught, fs)
         | Some list_md \<Rightarrow>
             (case read_text fs (target_file a) of
                None \<Rightarrow> (Uncaught, fs)
              | Some original \<Rightarrow>
                  (case replace_between_markers original (marker_start a) (marker_end a) list_md of
                     Inl err \<Rightarrow> (Exit 3 MarkersMissing, fs)
                   | Inr (updated, changed) \<Rightarrow>
                       if changed
                       then (Exit (if no_fail_on_change a then 0 else 1) Updated,
                             write_text fs (target_file a) updated now)
                       else (Exit 0 NoChangesNeeded, fs)))))"

section \<open>Notions used in the statements\<close>

text \<open>A span at offset \<open>i\<close>: the start marker stands at \<open>i\<close> and the end marker after it.\<close>

definition span_at :: "string \<Rightarrow> string \<Rightarrow> string \<Rightarrow> nat \<Rightarrow> bool" where
  "span_at st e s i \<longleftrightarrow> i \<le> length s \<and> prefix st (drop i s) \<and>
     (\<exists>n. n \<le> length s - i - length st \<and> prefix e (drop (i + length st + n) s))"

text \<open>
  The lines of a text for the heading pattern are the pieces between newlines
  (\<open>split_on NL\<close>). A line matches the pattern when, after its leading blanks and tabs,
  it has a \<open>#\<close>, a blank or tab and at least one more character; its heading text is
  what follows the \<open>#\<close>, trimmed. \<open>fallback_title\<close> is the first line of \<open>splitlines\<close>
  that is not blank, trimmed, or the stem of the file name.
\<close>


definition first_line :: "string \<Rightarrow> string" where
  "first_line s = takeWhile (\<lambda>c. c \<noteq> NL) s"

definition h1_line :: "string \<Rightarrow> bool" where
  "h1_line l = (case dropWhile is_blank_tab l of
                  c1 # c2 # c3 # r \<Rightarrow> c1 = CHR ''#'' \<and> is_blank_tab c2
                | _ \<Rightarrow> False)"

definition heading_text :: "string \<Rightarrow> string" where
  "heading_text l = strip (tl (dropWhile is_blank_tab l))"

definition fallback_title :: "string \<Rightarrow> path \<Rightarrow> string" where
  "fallback_title text p =
     (case find (\<lambda>t. t \<noteq> []) (map strip (splitlines text)) of
        Some t \<Rightarrow> t
      | None \<Rightarrow> stem p)"

text \<open>The group key of a file below the source directory, as \<open>group_key_for\<close> computes it.\<close>

definition key_of :: "path \<Rightarrow> int \<Rightarrow> path \<Rightarrow> string" where
  "key_of d depth f =
     (let dirs = butlast (drop (length d) f)
      in if dirs = [] then [] else join ''/'' (slice_to depth dirs))"

text \<open>
  The keys of the dictionary of groups in the order of their insertion: the key of each
  file of the list in turn, a key that is already there staying where it is.
\<close>

definition add_key :: "string \<Rightarrow> string list \<Rightarrow> string list" where
  "add_key k ks = (if k \<in> set ks then ks else ks @ [k])"

definition key_order :: "path \<Rightarrow> int \<Rightarrow> path list \<Rightarrow> string list" where
  "key_order d depth files = foldl (\<lambda>ks f. add_key (key_of d depth f) ks) [] files"

text \<open>
  The characters \<open>0xB5\<close> and \<open>0xFF\<close> are the two whose upper-case form lies above \<open>0xFF\<close>;
  \<open>upper_below_256\<close> holds of a string without them.
\<close>

definition upper_below_256 :: "string \<Rightarrow> bool" where
  "upper_below_256 s \<longleftrightarrow> CHR 0xB5 \<notin> set s \<and> CHR 0xFF \<notin> set s"


section \<open>Marker substitution: the span that is replaced\<close>

lemma find_end_sound:
  "find_end e s = Some k \<Longrightarrow> prefix e (drop k s) \<and> k \<le> length s"
proof (induction s arbitrary: k)
  case Nil
  then show ?case by (simp split: if_splits)
next
  case (Cons c cs)
  show ?case
  proof (cases "prefix e (c # cs)")
    case True
    with Cons.prems show ?thesis by simp
  next
    case False
    with Cons.prems obtain k' where "find_end e cs = Some k'" "k = Suc k'" by auto
    with Cons.IH show ?thesis by simp
  qed
qed

lemma find_end_least:
  "find_end e s = Some k \<Longrightarrow> prefix e (drop n s) \<Longrightarrow> n \<le> length s \<Longrightarrow> k \<le> n"
proof (induction s arbitrary: k n)
  case Nil
  then show ?case by (simp split: if_splits)
next
  case (Cons c cs)
  show ?case
  proof (cases "prefix e (c # cs)")
    case True
    with Cons.prems show ?thesis by simp
  next
    case False
    with Cons.prems(1) obtain k' where k': "find_end e cs = Some k'" "k = Suc k'" by auto
    from False Cons.prems(2) obtain n' where n': "n = Suc n'" by (cases n) auto
    with Cons.prems have "prefix e (drop n' cs)" "n' \<le> length cs" by auto
    with Cons.IH k' have "k' \<le> n'" by blast
    with k' n' show ?thesis by simp
  qed
qed

lemma find_end_complete:
  "prefix e (drop n s) \<Longrightarrow> n \<le> length s \<Longrightarrow> \<exists>k. find_end e s = Some k"
proof (induction s arbitrary: n)
  case Nil
  then show ?case by simp
next
  case (Cons c cs)
  show ?case
  proof (cases "prefix e (c # cs)")
    case True
    then show ?thesis by simp
  next
    case False
    with Cons.prems obtain n' where n': "n = Suc n'" by (cases n) auto
    with Cons.prems have "prefix e (drop n' cs)" "n' \<le> length cs" by auto
    with Cons.IH obtain k where "find_end e cs = Some k" by blast
    with False show ?thesis by simp
  qed
qed

lemma match_here_Some:
  "match_here st e s = Some j \<Longrightarrow>
     \<exists>k. j = length st + k + length e \<and> prefix st s \<and> find_end e (drop (length st) s) = Some k"
  by (auto simp: match_here_def split: if_splits)

lemma match_here_None:
  "match_here st e s = None \<Longrightarrow> \<not> span_at st e s 0"
proof
  assume a: "match_here st e s = None" and b: "span_at st e s 0"
  from b obtain n where n: "prefix st s" "n \<le> length s - length st" "prefix e (drop (length st + n) s)"
    by (auto simp: span_at_def)
  then have "prefix e (drop n (drop (length st) s))" by (simp add: add.commute)
  with n(2) have "\<exists>k. find_end e (drop (length st) s) = Some k"
    by (intro find_end_complete[where n = n]) auto
  with a n(1) show False by (auto simp: match_here_def)
qed

lemma span_at_Suc: "span_at st e (c # cs) (Suc i) \<longleftrightarrow> span_at st e cs i"
  by (simp add: span_at_def)

lemma search_markers_sound:
  "search_markers st e s = Some (i, j) \<Longrightarrow>
     i \<le> length s \<and> match_here st e (drop i s) = Some (j - i) \<and> i \<le> j \<and>
     (\<forall>i' < i. \<not> span_at st e s i')"
proof (induction s arbitrary: i j)
  case Nil
  then show ?case by auto
next
  case (Cons c cs)
  show ?case
  proof (cases "match_here st e (c # cs)")
    case (Some j')
    with Cons.prems show ?thesis by simp
  next
    case None
    with Cons.prems obtain i0 j0 where
      r: "search_markers st e cs = Some (i0, j0)" "i = Suc i0" "j = Suc j0"
      by auto
    from Cons.IH[OF r(1)] have ih: "i0 \<le> length cs"
      "match_here st e (drop i0 cs) = Some (j0 - i0)" "i0 \<le> j0"
      "\<forall>i' < i0. \<not> span_at st e cs i'" by auto
    have "\<not> span_at st e (c # cs) i'" if "i' < i" for i'
    proof (cases i')
      case 0
      with None show ?thesis using match_here_None by blast
    next
      case (Suc m)
      with that r(2) ih(4) show ?thesis by (simp add: span_at_Suc)
    qed
    with ih r show ?thesis by simp
  qed
qed

lemma search_markers_complete:
  "span_at st e s i \<Longrightarrow> \<exists>r. search_markers st e s = Some r"
proof (induction s arbitrary: i)
  case Nil
  then have "span_at st e [] 0" by (simp add: span_at_def)
  then show ?case using match_here_None by (cases "match_here st e []") auto
next
  case (Cons c cs)
  show ?case
  proof (cases "match_here st e (c # cs)")
    case (Some j')
    then show ?thesis by simp
  next
    case None
    then have "\<not> span_at st e (c # cs) 0" by (rule match_here_None)
    with Cons.prems obtain m where "i = Suc m" by (cases i) auto
    with Cons.prems have "span_at st e cs m" by (simp add: span_at_Suc)
    with Cons.IH obtain r where "search_markers st e cs = Some r" by blast
    with None show ?thesis by (cases r) simp
  qed
qed

lemma span_at_decomp: "s = a @ st @ b @ e @ c \<Longrightarrow> span_at st e s (length a)"
  unfolding span_at_def
  by (auto intro!: exI[where x = "length b"])

lemma prefix_drop_decomp:
  "prefix p (drop n s) \<Longrightarrow> n \<le> length s \<Longrightarrow> s = take n s @ p @ drop (n + length p) s"
proof -
  assume "prefix p (drop n s)" "n \<le> length s"
  then obtain r where r: "drop n s = p @ r" by (auto simp: prefix_def)
  then have "drop (length p) (drop n s) = r" by simp
  then have "drop (n + length p) s = r" by (simp add: add.commute)
  with r show ?thesis by (metis append_take_drop_id)
qed

lemma search_markers_decomp:
  assumes "search_markers st e s = Some (i, j)"
  shows "\<exists>mid. s = take i s @ st @ mid @ e @ drop j s \<and>
           find_end e (mid @ e @ drop j s) = Some (length mid) \<and> i \<le> length s"
proof -
  from search_markers_sound[OF assms]
  have i: "i \<le> length s" and m: "match_here st e (drop i s) = Some (j - i)" and ij: "i \<le> j"
    by auto
  from match_here_Some[OF m] obtain k where k: "j - i = length st + k + length e"
    "prefix st (drop i s)" "find_end e (drop (length st) (drop i s)) = Some k" by blast
  let ?t = "drop (i + length st) s"
  have t: "drop (length st) (drop i s) = ?t" by (simp add: add.commute)
  from prefix_drop_decomp[OF k(2) i] have s1: "s = take i s @ st @ ?t" .
  from find_end_sound[OF k(3)] have pe: "prefix e (drop k ?t)" and kl: "k \<le> length ?t"
    unfolding t by auto
  from prefix_drop_decomp[OF pe kl] have s2: "?t = take k ?t @ e @ drop (k + length e) ?t" .
  have j: "j = i + length st + k + length e" using k(1) ij by arith
  have "drop (k + length e) ?t = drop j s" by (simp add: j add.commute add.left_commute)
  with s2 have s3: "?t = take k ?t @ e @ drop j s" by simp
  have lk: "length (take k ?t) = k" using kl by simp
  from k(3) have "find_end e ?t = Some k" unfolding t .
  then have "find_end e (take k ?t @ e @ drop j s) = Some (length (take k ?t))"
    unfolding lk using s3 by simp
  moreover from s1 s3 have "s = take i s @ st @ take k ?t @ e @ drop j s" by simp
  ultimately show ?thesis using i by blast
qed

text \<open>
  Claim C1. Whenever the content holds the start marker followed, anywhere later, by the
  end marker, \<open>replace_between_markers\<close> succeeds and returns the text before the start
  marker, the start marker, one newline, the replacement, the end marker and the text
  after the matched span. The start marker taken is the first one that an end marker
  follows, the span up to the end marker is the shortest one, the text outside the span
  is kept as it is, and the flag says whether the new text differs from the content.
\<close>

theorem C1_replace_between_markers:
  assumes "content = a @ st @ b @ e @ c"
  shows "\<exists>pre mid post.
     content = pre @ st @ mid @ e @ post \<and>
     replace_between_markers content st e replacement =
        Inr (pre @ st @ [NL] @ replacement @ e @ post,
             pre @ st @ [NL] @ replacement @ e @ post \<noteq> content) \<and>
     (\<forall>a' b' c'. content = a' @ st @ b' @ e @ c' \<longrightarrow> length pre \<le> length a') \<and>
     (\<forall>b' c'. content = pre @ st @ b' @ e @ c' \<longrightarrow> length mid \<le> length b')"
proof -
  from assms have "span_at st e content (length a)" by (rule span_at_decomp)
  then obtain r where "search_markers st e content = Some r"
    using search_markers_complete by blast
  then obtain i j where ij: "search_markers st e content = Some (i, j)" by (cases r) auto
  from search_markers_decomp[OF ij] obtain mid where
    mid: "content = take i content @ st @ mid @ e @ drop j content"
      "find_end e (mid @ e @ drop j content) = Some (length mid)" "i \<le> length content" by blast
  let ?pre = "take i content" and ?post = "drop j content"
  have lp: "length ?pre = i" using mid(3) by simp
  have r: "replace_between_markers content st e replacement =
        Inr (?pre @ st @ [NL] @ replacement @ e @ ?post,
             ?pre @ st @ [NL] @ replacement @ e @ ?post \<noteq> content)"
    by (simp add: replace_between_markers_def ij Let_def)
  have first: "length ?pre \<le> length a'" if "content = a' @ st @ b' @ e @ c'" for a' b' c'
  proof (rule ccontr)
    assume "\<not> length ?pre \<le> length a'"
    then have "length a' < i" using lp by simp
    moreover from that have "span_at st e content (length a')" by (rule span_at_decomp)
    ultimately show False using search_markers_sound[OF ij] by blast
  qed
  have shortest: "length mid \<le> length b'" if "content = ?pre @ st @ b' @ e @ c'" for b' c'
  proof -
    from that mid(1) have "?pre @ st @ mid @ e @ ?post = ?pre @ st @ b' @ e @ c'" by simp
    then have eq: "mid @ e @ ?post = b' @ e @ c'" by simp
    have "prefix e (drop (length b') (b' @ e @ c'))" by simp
    with eq have "prefix e (drop (length b') (mid @ e @ ?post))" by simp
    moreover have "length b' \<le> length (mid @ e @ ?post)" using eq by simp
    ultimately show ?thesis using find_end_least[OF mid(2)] by blast
  qed
  from mid(1) r first shortest show ?thesis by blast
qed

theorem C1_replace_between_markers_witness:
  "\<exists>pre mid post.
     ''header\<newline><!--adrlist-->\<newline>OLD\<newline><!--adrliststop-->\<newline>footer\<newline>'' =
        pre @ ''<!--adrlist-->'' @ mid @ ''<!--adrliststop-->'' @ post \<and>
     replace_between_markers
        ''header\<newline><!--adrlist-->\<newline>OLD\<newline><!--adrliststop-->\<newline>footer\<newline>''
        ''<!--adrlist-->'' ''<!--adrliststop-->'' ''NEW\<newline>'' =
        Inr (pre @ ''<!--adrlist-->'' @ [NL] @ ''NEW\<newline>'' @ ''<!--adrliststop-->'' @ post, True)"
proof -
  have d: "''header\<newline><!--adrlist-->\<newline>OLD\<newline><!--adrliststop-->\<newline>footer\<newline>'' =
     ''header\<newline>'' @ ''<!--adrlist-->'' @ ''\<newline>OLD\<newline>'' @ ''<!--adrliststop-->'' @ ''\<newline>footer\<newline>''"
    by simp
  from C1_replace_between_markers[OF d, of "''NEW\<newline>''"] obtain pre mid post where
    p: "''header\<newline><!--adrlist-->\<newline>OLD\<newline><!--adrliststop-->\<newline>footer\<newline>'' =
        pre @ ''<!--adrlist-->'' @ mid @ ''<!--adrliststop-->'' @ post"
     "replace_between_markers
        ''header\<newline><!--adrlist-->\<newline>OLD\<newline><!--adrliststop-->\<newline>footer\<newline>''
        ''<!--adrlist-->'' ''<!--adrliststop-->'' ''NEW\<newline>'' =
        Inr (pre @ ''<!--adrlist-->'' @ [NL] @ ''NEW\<newline>'' @ ''<!--adrliststop-->'' @ post,
             pre @ ''<!--adrlist-->'' @ [NL] @ ''NEW\<newline>'' @ ''<!--adrliststop-->'' @ post \<noteq>
             ''header\<newline><!--adrlist-->\<newline>OLD\<newline><!--adrliststop-->\<newline>footer\<newline>'')"
    by blast
  have "replace_between_markers
        ''header\<newline><!--adrlist-->\<newline>OLD\<newline><!--adrliststop-->\<newline>footer\<newline>''
        ''<!--adrlist-->'' ''<!--adrliststop-->'' ''NEW\<newline>'' =
        Inr (''header\<newline><!--adrlist-->\<newline>NEW\<newline><!--adrliststop-->\<newline>footer\<newline>'', True)"
    by code_simp
  with p show ?thesis by (metis Inr_inject prod.inject)
qed

section \<open>Title derivation: the search read line by line\<close>

lemma is_space_NL [simp]: "is_space NL"
  by (simp add: is_space_def)

lemma is_blank_tab_space: "is_blank_tab c \<Longrightarrow> is_space c"
  by (auto simp: is_blank_tab_def is_space_def)

lemma is_blank_tab_not_NL: "is_blank_tab c \<Longrightarrow> c \<noteq> NL"
  by (auto simp: is_blank_tab_def)

lemma is_blank_tab_not_hash: "is_blank_tab c \<Longrightarrow> c \<noteq> CHR ''#''"
  by (auto simp: is_blank_tab_def)

lemma first_line_Cons: "first_line (c # cs) = (if c = NL then [] else c # first_line cs)"
  by (simp add: first_line_def)

lemma first_line_Nil [simp]: "first_line [] = []"
  by (simp add: first_line_def)

lemma strip_append_spaces: "\<forall>c\<in>set w. is_space c \<Longrightarrow> strip (g @ w) = strip g"
proof (cases "\<forall>c\<in>set g. is_space c")
  case True
  assume w: "\<forall>c\<in>set w. is_space c"
  with True have a: "dropWhile is_space (g @ w) = []" by simp
  from True have b: "dropWhile is_space g = []" by simp
  show ?thesis unfolding strip_def lstrip_def a b ..
next
  case False
  assume w: "\<forall>c\<in>set w. is_space c"
  from False obtain x where "x \<in> set g" "\<not> is_space x" by blast
  then have a: "dropWhile is_space (g @ w) = dropWhile is_space g @ w"
    by (rule dropWhile_append1)
  have b: "dropWhile is_space (rev w @ ys) = dropWhile is_space ys" for ys
    by (rule dropWhile_append2) (use w in auto)
  show ?thesis unfolding strip_def lstrip_def a rstrip_def rev_append b ..
qed

lemma strip_spaces_append: "\<forall>c\<in>set w. is_space c \<Longrightarrow> strip (w @ g) = strip g"
proof -
  assume w: "\<forall>c\<in>set w. is_space c"
  have "dropWhile is_space (w @ g) = dropWhile is_space g"
    by (rule dropWhile_append2) (use w in auto)
  then show ?thesis by (simp add: strip_def lstrip_def)
qed

lemma strip_space_Cons: "is_space c \<Longrightarrow> strip (c # g) = strip g"
  by (simp add: strip_def lstrip_def)

lemma h1_tail_iff: "h1_tail s \<longleftrightarrow> (\<forall>c\<in>set (first_line s). is_space c)"
  by (induction s) (auto simp: first_line_Cons)

lemma h1_group_None: "h1_group s = None \<longleftrightarrow> first_line s = []"
proof (induction s)
  case Nil
  show ?case by simp
next
  case (Cons c cs)
  show ?case
  proof (cases "c = NL")
    case True
    then show ?thesis by (simp add: first_line_Cons)
  next
    case False
    show ?thesis
    proof (cases "h1_tail cs")
      case True
      with False show ?thesis by (simp add: first_line_Cons)
    next
      case nt: False
      then have "first_line cs \<noteq> []" by (auto simp: h1_tail_iff)
      with Cons.IH have "h1_group cs \<noteq> None" by simp
      with False nt show ?thesis by (auto simp: first_line_Cons)
    qed
  qed
qed

lemma h1_group_Some:
  "h1_group s = Some g \<Longrightarrow> \<exists>w. first_line s = g @ w \<and> (\<forall>c\<in>set w. is_space c)"
proof (induction s arbitrary: g)
  case Nil
  then show ?case by simp
next
  case (Cons c cs)
  from Cons.prems have nl: "c \<noteq> NL" by (auto split: if_splits)
  show ?case
  proof (cases "h1_tail cs")
    case True
    with Cons.prems nl have g: "g = [c]" by simp
    from True have "\<forall>x\<in>set (first_line cs). is_space x" by (simp add: h1_tail_iff)
    with g nl show ?thesis by (simp add: first_line_Cons)
  next
    case False
    with Cons.prems nl obtain g' where g': "h1_group cs = Some g'" "g = c # g'" by auto
    from Cons.IH[OF g'(1)] obtain w where "first_line cs = g' @ w" "\<forall>c\<in>set w. is_space c"
      by blast
    with g'(2) nl show ?thesis by (simp add: first_line_Cons)
  qed
qed

lemma h1_group_strip: "h1_group s = Some g \<Longrightarrow> strip g = strip (first_line s)"
  using h1_group_Some[of s g] strip_append_spaces by fastforce

text \<open>After the \<open>#\<close>: a blank or tab, then at least one more character on the line.\<close>

lemma h1_blanks1_None:
  "h1_blanks1 s = None \<longleftrightarrow> \<not> (s \<noteq> [] \<and> is_blank_tab (hd s) \<and> 2 \<le> length (first_line s))"
proof (induction s)
  case Nil
  show ?case by simp
next
  case (Cons c cs)
  show ?case
  proof (cases "is_blank_tab c")
    case False
    then show ?thesis by simp
  next
    case True
    then have nl: "c \<noteq> NL" by (rule is_blank_tab_not_NL)
    show ?thesis
    proof (cases "h1_blanks1 cs")
      case (Some g)
      with Cons.IH have "2 \<le> length (first_line cs)" by simp
      with True Some nl show ?thesis by (simp add: first_line_Cons)
    next
      case None
      with True have "h1_blanks1 (c # cs) = h1_group cs" by simp
      with True nl show ?thesis
        using h1_group_None[of cs] by (auto simp: first_line_Cons Suc_le_eq)
    qed
  qed
qed

lemma h1_blanks1_Some: "h1_blanks1 s = Some g \<Longrightarrow> strip g = strip (first_line s)"
proof (induction s arbitrary: g)
  case Nil
  then show ?case by simp
next
  case (Cons c cs)
  from Cons.prems have b: "is_blank_tab c" by (auto split: if_splits)
  then have nl: "c \<noteq> NL" by (rule is_blank_tab_not_NL)
  from b have sp: "is_space c" by (rule is_blank_tab_space)
  have fl: "strip (first_line (c # cs)) = strip (first_line cs)"
    using nl sp by (simp add: first_line_Cons strip_space_Cons)
  show ?case
  proof (cases "h1_blanks1 cs")
    case (Some g')
    with Cons.prems b have "g = g'" by simp
    with Cons.IH Some fl show ?thesis by simp
  next
    case None
    with Cons.prems b have "h1_group cs = Some g" by simp
    then have "strip g = strip (first_line cs)" by (rule h1_group_strip)
    with fl show ?thesis by simp
  qed
qed

lemma h1_line_hash:
  "h1_line (CHR ''#'' # l) \<longleftrightarrow> l \<noteq> [] \<and> is_blank_tab (hd l) \<and> 2 \<le> length l"
proof (cases l)
  case Nil
  then show ?thesis by (simp add: h1_line_def is_blank_tab_def)
next
  case (Cons c2 r)
  then show ?thesis by (cases r) (simp_all add: h1_line_def is_blank_tab_def)
qed

lemma h1_line_blank: "is_blank_tab c \<Longrightarrow> h1_line (c # l) = h1_line l"
  by (simp add: h1_line_def)

lemma h1_line_other: "\<not> is_blank_tab c \<Longrightarrow> c \<noteq> CHR ''#'' \<Longrightarrow> \<not> h1_line (c # l)"
  by (cases l; cases "tl l") (auto simp: h1_line_def)

lemma h1_line_Nil [simp]: "\<not> h1_line []"
  by (simp add: h1_line_def)

lemma heading_text_blank: "is_blank_tab c \<Longrightarrow> heading_text (c # l) = heading_text l"
  by (simp add: heading_text_def)

lemma heading_text_hash: "heading_text (CHR ''#'' # l) = strip l"
  by (simp add: heading_text_def is_blank_tab_def)

lemma hd_first_line: "s \<noteq> [] \<Longrightarrow> hd s \<noteq> NL \<Longrightarrow> first_line s \<noteq> [] \<and> hd (first_line s) = hd s"
  by (cases s) (auto simp: first_line_Cons)

lemma h1_line_start_None: "h1_line_start s = None \<longleftrightarrow> \<not> h1_line (first_line s)"
proof (induction s)
  case Nil
  show ?case by simp
next
  case (Cons c cs)
  show ?case
  proof (cases "is_blank_tab c")
    case True
    then have nl: "c \<noteq> NL" and nh: "c \<noteq> CHR ''#''"
      by (auto dest: is_blank_tab_not_NL is_blank_tab_not_hash)
    with True Cons.IH show ?thesis
      by (cases "h1_line_start cs") (simp_all add: first_line_Cons h1_line_blank)
  next
    case False
    show ?thesis
    proof (cases "c = CHR ''#''")
      case True
      have "(cs \<noteq> [] \<and> is_blank_tab (hd cs) \<and> 2 \<le> length (first_line cs)) \<longleftrightarrow>
            (first_line cs \<noteq> [] \<and> is_blank_tab (hd (first_line cs)) \<and> 2 \<le> length (first_line cs))"
        by (cases cs) (auto simp: first_line_Cons dest: is_blank_tab_not_NL)
      with True False show ?thesis
        by (simp add: first_line_Cons h1_line_hash h1_blanks1_None)
    next
      case nh: False
      with False show ?thesis by (simp add: first_line_Cons h1_line_other)
    qed
  qed
qed

lemma h1_line_start_Some:
  "h1_line_start s = Some g \<Longrightarrow> strip g = heading_text (first_line s)"
proof (induction s arbitrary: g)
  case Nil
  then show ?case by simp
next
  case (Cons c cs)
  show ?case
  proof (cases "is_blank_tab c")
    case True
    then have nl: "c \<noteq> NL" and nh: "c \<noteq> CHR ''#''"
      by (auto dest: is_blank_tab_not_NL is_blank_tab_not_hash)
    with True Cons.prems have "h1_line_start cs = Some g"
      by (cases "h1_line_start cs") simp_all
    from Cons.IH[OF this] True nl show ?thesis
      by (simp add: first_line_Cons heading_text_blank)
  next
    case False
    with Cons.prems have h: "c = CHR ''#''" "h1_blanks1 cs = Some g" by (auto split: if_splits)
    from h1_blanks1_Some[OF h(2)] h(1) show ?thesis
      by (simp add: first_line_Cons heading_text_hash)
  qed
qed


lemma split_on_NL:
  "split_on NL s =
     first_line s # (case dropWhile (\<lambda>c. c \<noteq> NL) s of [] \<Rightarrow> [] | x # t \<Rightarrow> split_on NL t)"
proof (induction s)
  case Nil
  show ?case by simp
next
  case (Cons c cs)
  show ?case
  proof (cases "c = NL")
    case True
    then show ?thesis by (simp add: first_line_Cons)
  next
    case False
    then show ?thesis by (simp add: first_line_Cons Cons.IH)
  qed
qed

lemma h1_search_False:
  "h1_search False s =
     (case dropWhile (\<lambda>c. c \<noteq> NL) s of [] \<Rightarrow> None | x # t \<Rightarrow> h1_search True t)"
  by (induction s) simp_all

lemma h1_search_True:
  "h1_search True s = (case h1_line_start s of Some g \<Rightarrow> Some g | None \<Rightarrow> h1_search False s)"
proof (cases s)
  case Nil
  then show ?thesis by simp
next
  case (Cons c cs)
  then show ?thesis by (simp del: h1_line_start.simps split: option.split)
qed

lemma length_after_NL: "dropWhile (\<lambda>c. c \<noteq> NL) s = x # t \<Longrightarrow> length t < length s"
proof -
  assume "dropWhile (\<lambda>c. c \<noteq> NL) s = x # t"
  then have "length (x # t) \<le> length s" by (metis length_dropWhile_le)
  then show ?thesis by simp
qed

lemma first_h1_lines:
  "first_h1 s = map_option heading_text (find h1_line (split_on NL s))"
proof (induction s rule: length_induct)
  case (1 s)
  show ?case
  proof (cases "h1_line_start s")
    case (Some g)
    then have "h1_line (first_line s)" using h1_line_start_None[of s] by simp
    moreover from Some have "strip g = heading_text (first_line s)" by (rule h1_line_start_Some)
    moreover have "h1_search True s = Some g" using Some by (simp add: h1_search_True)
    ultimately show ?thesis
      by (subst split_on_NL) (simp add: first_h1_def)
  next
    case None
    then have nl: "\<not> h1_line (first_line s)" using h1_line_start_None[of s] by simp
    show ?thesis
    proof (cases "dropWhile (\<lambda>c. c \<noteq> NL) s")
      case Nil
      with None nl show ?thesis
        by (subst split_on_NL)
           (simp add: first_h1_def h1_search_True h1_search_False del: dropWhile_eq_Nil_conv)
    next
      case (Cons x t)
      then have "length t < length s" by (rule length_after_NL)
      with 1 have ih: "first_h1 t = map_option heading_text (find h1_line (split_on NL t))"
        by blast
      have "first_h1 s = first_h1 t"
        using None Cons by (simp add: first_h1_def h1_search_True h1_search_False)
      with ih nl Cons show ?thesis
        by (subst split_on_NL) simp
    qed
  qed
qed

lemma title_for_stages:
  assumes "read_text fs p = Some text"
  shows "title_for fs p =
     (case find h1_line (split_on NL text) of
        Some l \<Rightarrow> if heading_text l \<noteq> [] then heading_text l else fallback_title text p
      | None \<Rightarrow> fallback_title text p)"
proof (cases "find h1_line (split_on NL text)")
  case None
  then have "first_h1 text = None" by (simp add: first_h1_lines)
  with assms None show ?thesis by (simp add: title_for_def fallback_title_def)
next
  case (Some l)
  then have "first_h1 text = Some (heading_text l)" by (simp add: first_h1_lines)
  with assms Some show ?thesis
    by (cases "heading_text l") (simp_all add: title_for_def fallback_title_def)
qed


lemma find_first_match:
  "\<forall>x\<in>set before. \<not> P x \<Longrightarrow> P l \<Longrightarrow> find P (before @ l # after) = Some l"
  by (induction before) simp_all

lemma h1_line_blanks: "\<forall>c\<in>set ws. is_blank_tab c \<Longrightarrow> h1_line (ws @ l) = h1_line l"
  by (induction ws) (simp_all add: h1_line_blank)

lemma heading_text_blanks:
  "\<forall>c\<in>set ws. is_blank_tab c \<Longrightarrow> heading_text (ws @ l) = heading_text l"
  by (induction ws) (simp_all add: heading_text_blank)

lemma h1_line_form:
  assumes "\<forall>c\<in>set ws1. is_blank_tab c" "ws2 \<noteq> []" "\<forall>c\<in>set ws2. is_blank_tab c" "body \<noteq> []"
  shows "h1_line (ws1 @ ''#'' @ ws2 @ body) \<and> heading_text (ws1 @ ''#'' @ ws2 @ body) = strip body"
proof -
  have "h1_line (CHR ''#'' # ws2 @ body)"
    unfolding h1_line_hash using assms(2,3,4) by (cases ws2; cases body) auto
  then have 1: "h1_line (ws1 @ ''#'' @ ws2 @ body)"
    using h1_line_blanks[OF assms(1)] by simp
  have "\<forall>c\<in>set ws2. is_space c" using assms(3) by (auto dest: is_blank_tab_space)
  then have "strip (ws2 @ body) = strip body" by (rule strip_spaces_append)
  then have 2: "heading_text (ws1 @ ''#'' @ ws2 @ body) = strip body"
    using heading_text_blanks[OF assms(1)] by (simp add: heading_text_hash)
  from 1 2 show ?thesis ..
qed

text \<open>
  Claim C7, as amended. For a file that can be read, the title is found in three stages.
  If the first line that matches the heading pattern has a heading text that is not empty
  after trimming, that text is the title. Otherwise (no line matches, or the first
  matching line has a blank heading text) the title is the first line of \<open>splitlines\<close>
  that is not blank, trimmed; if there is none, it is the stem of the file name.
\<close>

theorem C7_title_for_stages:
  assumes "read_text fs p = Some content"
  shows "title_for fs p =
     (case find h1_line (split_on NL content) of
        Some l \<Rightarrow> if heading_text l \<noteq> [] then heading_text l else fallback_title content p
      | None \<Rightarrow> fallback_title content p)"
  using assms by (rule title_for_stages)

text \<open>
  The two examples of the claim: \<open># Title A\<close> on the first line gives \<open>Title A\<close>, and a
  text with no heading gives its first line.
\<close>

theorem C7_title_for_stages_witness:
  "title_for [([''a.md''], File 0 (Some ''# Title A\<newline>Body''))] [''a.md''] = ''Title A'' \<and>
   title_for [([''b.md''], File 0 (Some ''No h1 here\<newline>But first non-empty line''))] [''b.md'']
     = ''No h1 here''"
proof -
  have ra: "read_text [([''a.md''], File 0 (Some ''# Title A\<newline>Body''))] [''a.md'']
              = Some ''# Title A\<newline>Body''"
    by (simp add: read_text_def)
  have rb: "read_text [([''b.md''], File 0 (Some ''No h1 here\<newline>But first non-empty line''))] [''b.md'']
              = Some ''No h1 here\<newline>But first non-empty line''"
    by (simp add: read_text_def)
  have ea: "(case find h1_line (split_on NL ''# Title A\<newline>Body'') of
        Some l \<Rightarrow> if heading_text l \<noteq> [] then heading_text l
                  else fallback_title ''# Title A\<newline>Body'' [''a.md'']
      | None \<Rightarrow> fallback_title ''# Title A\<newline>Body'' [''a.md'']) = ''Title A''"
    by code_simp
  have eb: "(case find h1_line (split_on NL ''No h1 here\<newline>But first non-empty line'') of
        Some l \<Rightarrow> if heading_text l \<noteq> [] then heading_text l
                  else fallback_title ''No h1 here\<newline>But first non-empty line'' [''b.md'']
      | None \<Rightarrow> fallback_title ''No h1 here\<newline>But first non-empty line'' [''b.md''])
      = ''No h1 here''"
    by code_simp
  show ?thesis
    using C7_title_for_stages[OF ra] C7_title_for_stages[OF rb] ea eb by simp
qed

text \<open>
  Claim C7 as stated fails: the text below has the heading line \<open># Title A\<close>, and before
  it a line that matches the pattern with a blank heading text. The title is neither
  \<open>Title A\<close> nor the empty trimmed text of the first match; it is the first line that is
  not blank, \<open>#\<close>.
\<close>

theorem C7_blank_heading_counterexample:
  "first_h1 ''#  \<newline># Title A\<newline>Body'' = Some [] \<and>
   title_for [([''a.md''], File 0 (Some ''#  \<newline># Title A\<newline>Body''))] [''a.md''] = ''#''"
  by code_simp

text \<open>
  Claim C9, as amended. When the first line that matches the heading pattern consists of
  blanks or tabs (possibly none), a \<open>#\<close>, one or more blanks or tabs and a text that is
  not blank, the title is that text, trimmed: the \<open>#\<close> need not stand in the first
  column.
\<close>

theorem C9_indented_heading:
  assumes "read_text fs p = Some content"
    and "split_on NL content = before @ l # after"
    and "\<forall>x\<in>set before. \<not> h1_line x"
    and "l = ws1 @ ''#'' @ ws2 @ body"
    and "\<forall>c\<in>set ws1. is_blank_tab c"
    and "ws2 \<noteq> []" and "\<forall>c\<in>set ws2. is_blank_tab c"
    and "strip body \<noteq> []"
  shows "title_for fs p = strip body"
proof -
  from assms(8) have "body \<noteq> []" by (auto simp: strip_def lstrip_def rstrip_def)
  from h1_line_form[OF assms(5,6,7) this] assms(4)
  have l: "h1_line l" "heading_text l = strip body" by simp_all
  from find_first_match[OF assms(3) l(1)] assms(2)
  have "find h1_line (split_on NL content) = Some l" by simp
  with title_for_stages[OF assms(1)] l(2) assms(8) show ?thesis by simp
qed

theorem C9_indented_heading_witness:
  "title_for [([''a.md''], File 0 (Some ''intro\<newline>  # Real ADR \<newline>more''))] [''a.md'']
     = ''Real ADR''"
proof -
  have r: "read_text [([''a.md''], File 0 (Some ''intro\<newline>  # Real ADR \<newline>more''))] [''a.md'']
             = Some ''intro\<newline>  # Real ADR \<newline>more''"
    by (simp add: read_text_def)
  have s: "split_on NL ''intro\<newline>  # Real ADR \<newline>more'' = [''intro''] @ ''  # Real ADR '' # [''more'']"
    by simp
  have b: "\<forall>x\<in>set [''intro'']. \<not> h1_line x" by (simp add: h1_line_def is_blank_tab_def)
  have l: "''  # Real ADR '' = ''  '' @ ''#'' @ '' '' @ ''Real ADR ''" by simp
  have w1: "\<forall>c\<in>set ''  ''. is_blank_tab c" by (simp add: is_blank_tab_def)
  have w2: "'' '' \<noteq> []" "\<forall>c\<in>set '' ''. is_blank_tab c" by (simp_all add: is_blank_tab_def)
  have st: "strip ''Real ADR '' = ''Real ADR''" by code_simp
  then have ne: "strip ''Real ADR '' \<noteq> []" by simp
  from C9_indented_heading[OF r s b l w1 w2 ne] st show ?thesis by simp
qed

text \<open>
  Claim C9 as stated fails: the second line of the text below has the form of the claim
  (two blanks, \<open>#\<close>, a blank, \<open>Real\<close>), but the first line, a \<open>#\<close> followed by two tabs,
  matches the pattern first, with a blank heading text, and the title is \<open>#\<close>.
\<close>

theorem C9_later_heading_counterexample:
  "title_for [([''a.md''], File 0 (Some (''#'' @ [TAB, TAB, NL] @ ''  # Real'')))] [''a.md''] = ''#''"
  by code_simp

text \<open>
  Claim C10. When every line that matches the heading pattern has a heading text that is
  empty after trimming, the heading is not used: the title is the first line that is not
  blank, trimmed, or the stem of the file name when there is none.
\<close>

theorem C10_blank_heading_falls_through:
  assumes "read_text fs p = Some content"
    and "\<forall>l\<in>set (split_on NL content). h1_line l \<longrightarrow> heading_text l = []"
  shows "title_for fs p = fallback_title content p"
proof (cases "find h1_line (split_on NL content)")
  case None
  with title_for_stages[OF assms(1)] show ?thesis by simp
next
  case (Some l)
  then have "l \<in> set (split_on NL content)" "h1_line l"
    by (auto simp: find_Some_iff)
  with assms(2) have "heading_text l = []" by blast
  with title_for_stages[OF assms(1)] Some show ?thesis by simp
qed

theorem C10_blank_heading_falls_through_witness:
  "title_for [([''a.md''], File 0 (Some ''#  \<newline>foo''))] [''a.md''] = ''#'' \<and>
   title_for [([''docs'', ''b.md''], File 0 (Some [NL, NL]))] [''docs'', ''b.md''] = ''b''"
proof -
  have ra: "read_text [([''a.md''], File 0 (Some ''#  \<newline>foo''))] [''a.md''] = Some ''#  \<newline>foo''"
    by (simp add: read_text_def)
  have ha: "\<forall>l\<in>set (split_on NL ''#  \<newline>foo''). h1_line l \<longrightarrow> heading_text l = []"
    by code_simp
  have fa: "fallback_title ''#  \<newline>foo'' [''a.md''] = ''#''" by code_simp
  have rb: "read_text [([''docs'', ''b.md''], File 0 (Some [NL, NL]))] [''docs'', ''b.md''] = Some [NL, NL]"
    by (simp add: read_text_def)
  have hb: "\<forall>l\<in>set (split_on NL [NL, NL]). h1_line l \<longrightarrow> heading_text l = []"
    by code_simp
  have fb: "fallback_title [NL, NL] [''docs'', ''b.md''] = ''b''" by code_simp
  from C10_blank_heading_falls_through[OF ra ha] C10_blank_heading_falls_through[OF rb hb] fa fb
  show ?thesis by simp
qed

section \<open>File discovery: exclusion patterns\<close>


lemma glob_match_star:
  "glob_match (Star # ts) s \<longleftrightarrow> (\<exists>k\<le>length s. glob_match ts (drop k s))"
proof (induction s)
  case Nil
  show ?case by simp
next
  case (Cons c cs)
  have "(\<exists>k\<le>length (c # cs). glob_match ts (drop k (c # cs))) \<longleftrightarrow>
        glob_match ts (c # cs) \<or> (\<exists>k\<le>length cs. glob_match ts (drop k cs))"
  proof
    assume "\<exists>k\<le>length (c # cs). glob_match ts (drop k (c # cs))"
    then obtain k where k: "k \<le> length (c # cs)" "glob_match ts (drop k (c # cs))" by blast
    show "glob_match ts (c # cs) \<or> (\<exists>k\<le>length cs. glob_match ts (drop k cs))"
    proof (cases k)
      case 0
      with k show ?thesis by simp
    next
      case (Suc n)
      with k have "n \<le> length cs" "glob_match ts (drop n cs)" by simp_all
      then show ?thesis by blast
    qed
  next
    assume "glob_match ts (c # cs) \<or> (\<exists>k\<le>length cs. glob_match ts (drop k cs))"
    then show "\<exists>k\<le>length (c # cs). glob_match ts (drop k (c # cs))"
    proof
      assume "glob_match ts (c # cs)"
      then have "0 \<le> length (c # cs) \<and> glob_match ts (drop 0 (c # cs))" by simp
      then show ?thesis by blast
    next
      assume "\<exists>k\<le>length cs. glob_match ts (drop k cs)"
      then obtain k where "k \<le> length cs" "glob_match ts (drop k cs)" by blast
      then have "Suc k \<le> length (c # cs) \<and> glob_match ts (drop (Suc k) (c # cs))" by simp
      then show ?thesis by blast
    qed
  qed
  with Cons.IH show ?case by simp
qed

lemma glob_tokens_star: "glob_tokens (CHR ''*'' # pat) = Star # glob_tokens pat"
  by simp

lemma glob_tokens_any: "glob_tokens (CHR ''?'' # pat) = AnyChar # glob_tokens pat"
  by simp

lemma glob_tokens_lit:
  "c \<notin> set ''*?['' \<Longrightarrow> glob_tokens (c # pat) = Lit c # glob_tokens pat"
  by simp

lemma takeWhile_until: "x \<notin> set xs \<Longrightarrow> takeWhile (\<lambda>c. c \<noteq> x) (xs @ x # ys) = xs"
  by (induction xs) auto

lemma dropWhile_until: "x \<notin> set xs \<Longrightarrow> dropWhile (\<lambda>c. c \<noteq> x) (xs @ x # ys) = x # ys"
  by (induction xs) auto

lemma bracket_body_closed:
  assumes "CHR '']'' \<notin> set seq" "seq \<noteq> []" "hd seq \<noteq> CHR ''!''"
  shows "bracket_body (seq @ CHR '']'' # pat) = Some (seq, pat)"
proof -
  from assms obtain x xs where s: "seq = x # xs" "x \<noteq> CHR ''!''" "x \<noteq> CHR '']''"
    by (cases seq) auto
  show ?thesis
    unfolding bracket_body_def Let_def
    using s assms(1) takeWhile_until[of "CHR '']''" seq pat] dropWhile_until[of "CHR '']''" seq pat]
    by simp
qed

lemma bracket_body_negated:
  assumes "CHR '']'' \<notin> set seq" "seq \<noteq> []"
  shows "bracket_body (CHR ''!'' # seq @ CHR '']'' # pat) = Some (CHR ''!'' # seq, pat)"
proof -
  from assms obtain x xs where s: "seq = x # xs" "x \<noteq> CHR '']''"
    by (cases seq) auto
  show ?thesis
    unfolding bracket_body_def Let_def
    using s assms(1) takeWhile_until[of "CHR '']''" seq pat] dropWhile_until[of "CHR '']''" seq pat]
    by simp
qed

lemma bracket_body_range:
  assumes "a \<noteq> CHR ''!''" "b \<noteq> CHR '']''"
  shows "bracket_body (a # CHR ''-'' # b # CHR '']'' # pat) = Some ([a, CHR ''-'', b], pat)"
  using assms unfolding bracket_body_def Let_def by simp

lemma bracket_body_unclosed:
  assumes "CHR '']'' \<notin> set pat"
  shows "bracket_body pat = None"
proof -
  have "dropWhile (\<lambda>c. c \<noteq> CHR '']'') (drop n (drop k pat)) = []" for n k
  proof -
    have "set (drop n (drop k pat)) \<subseteq> set pat"
      using set_drop_subset[of n "drop k pat"] set_drop_subset[of k pat] by blast
    with assms have "\<forall>c\<in>set (drop n (drop k pat)). c \<noteq> CHR '']''" by blast
    then show ?thesis by (simp only: dropWhile_eq_Nil_conv)
  qed
  then show ?thesis unfolding bracket_body_def Let_def by simp
qed

lemma set_items_singles: "CHR ''-'' \<notin> set seq \<Longrightarrow> set_items seq = map Single seq"
  by (induction seq rule: set_items.induct) auto

lemma dropWhile_singles: "dropWhile empty_range (map Single seq) = map Single seq"
  by (cases seq) simp_all

lemma char_set_plain:
  "seq \<noteq> [] \<Longrightarrow> hd seq \<noteq> CHR ''!'' \<Longrightarrow> CHR ''-'' \<notin> set seq \<Longrightarrow>
     char_set seq = CharSet False (map Single seq)"
  by (simp add: char_set_def set_items_singles dropWhile_singles Let_def)

lemma char_set_negated:
  "CHR ''-'' \<notin> set seq \<Longrightarrow> char_set (CHR ''!'' # seq) = CharSet True (map Single seq)"
  by (simp add: char_set_def set_items_singles)

lemma char_set_range: "a \<noteq> CHR ''!'' \<Longrightarrow> char_set [a, CHR ''-'', b] = CharSet False [Range a b]"
  by (simp add: char_set_def Let_def)

lemma list_ex_singles: "list_ex (in_item c) (map Single seq) \<longleftrightarrow> c \<in> set seq"
  by (induction seq) auto

lemma glob_tokens_set:
  assumes "seq \<noteq> []" "CHR '']'' \<notin> set seq" "CHR ''-'' \<notin> set seq" "hd seq \<noteq> CHR ''!''"
  shows "glob_tokens (CHR ''['' # seq @ CHR '']'' # pat) = CharSet False (map Single seq) # glob_tokens pat"
  using assms by (simp add: bracket_body_closed char_set_plain)

lemma glob_tokens_negated_set:
  assumes "seq \<noteq> []" "CHR '']'' \<notin> set seq" "CHR ''-'' \<notin> set seq"
  shows "glob_tokens (CHR ''['' # CHR ''!'' # seq @ CHR '']'' # pat) = CharSet True (map Single seq) # glob_tokens pat"
  using assms by (simp add: bracket_body_negated char_set_negated)

lemma glob_tokens_range:
  assumes "a \<noteq> CHR ''!''" "b \<noteq> CHR '']''"
  shows "glob_tokens (CHR ''['' # a # CHR ''-'' # b # CHR '']'' # pat) = CharSet False [Range a b] # glob_tokens pat"
  using assms by (simp add: bracket_body_range char_set_range)

lemma glob_tokens_unclosed:
  assumes "CHR '']'' \<notin> set pat"
  shows "glob_tokens (CHR ''['' # pat) = Lit (CHR ''['') # glob_tokens pat"
  using assms by (simp add: bracket_body_unclosed)

lemma glob_match_lit: "glob_match (Lit a # ts) s \<longleftrightarrow> s \<noteq> [] \<and> hd s = a \<and> glob_match ts (tl s)"
  by (cases s) auto

lemma glob_match_set:
  "glob_match (CharSet neg items # ts) s \<longleftrightarrow>
     s \<noteq> [] \<and> (neg \<noteq> list_ex (in_item (hd s)) items) \<and> glob_match ts (tl s)"
  by (cases s) auto

lemma glob_match_nil: "glob_match [] s \<longleftrightarrow> s = []"
  by (cases s) auto

lemma glob_match_star_star: "glob_match (Star # Star # ts) s = glob_match (Star # ts) s"
  by (induction s) auto

lemma iter_markdown_files_mem:
  "p \<in> set (iter_markdown_files fs d pats exts) \<longleftrightarrow>
     p \<in> set (rglob fs d) \<and> is_file fs p \<and> lstrip_chars ''.'' (path_suffix p) \<in> set exts \<and>
     \<not> (\<exists>pat\<in>set pats. fnmatch (rel_posix p d) (normalize_glob pat))"
  by (auto simp: iter_markdown_files_def Let_def list_ex_iff)

text \<open>
  Claim C6, as amended. A file below the source directory that is a regular file with an
  accepted extension is discovered exactly when its relative path matches none of the
  normalised exclusion patterns under \<open>fnmatch\<close>. There \<open>*\<close> matches any run of
  characters, the separator \<open>/\<close> included, \<open>**\<close> means the same as \<open>*\<close>, and \<open>?\<close> matches
  any one character, the separator included. A set \<open>[seq]\<close> of plain characters matches
  any one character of \<open>seq\<close>, \<open>[!seq]\<close> any one character not in \<open>seq\<close>, and \<open>[a-b]\<close> any
  one character from \<open>a\<close> to \<open>b\<close> in the order of the code points. A \<open>[\<close> with no \<open>]\<close>
  after it and every character other than \<open>*\<close>, \<open>?\<close> and \<open>[\<close> match themselves only, and
  the pattern must match the whole path.
\<close>

theorem C6_exclusion_by_fnmatch:
  "(p \<in> set (iter_markdown_files fs d pats exts) \<longleftrightarrow>
      p \<in> set (rglob fs d) \<and> is_file fs p \<and> lstrip_chars ''.'' (path_suffix p) \<in> set exts \<and>
      \<not> (\<exists>pat\<in>set pats. fnmatch (rel_posix p d) (normalize_glob pat))) \<and>
   (fnmatch nm (CHR ''*'' # pat) \<longleftrightarrow> (\<exists>k\<le>length nm. fnmatch (drop k nm) pat)) \<and>
   (fnmatch nm (CHR ''*'' # CHR ''*'' # pat) \<longleftrightarrow> fnmatch nm (CHR ''*'' # pat)) \<and>
   (fnmatch nm (CHR ''?'' # pat) \<longleftrightarrow> nm \<noteq> [] \<and> fnmatch (tl nm) pat) \<and>
   (seq \<noteq> [] \<and> CHR '']'' \<notin> set seq \<and> CHR ''-'' \<notin> set seq \<and> hd seq \<noteq> CHR ''!'' \<longrightarrow>
      (fnmatch nm (CHR ''['' # seq @ CHR '']'' # pat) \<longleftrightarrow>
         nm \<noteq> [] \<and> hd nm \<in> set seq \<and> fnmatch (tl nm) pat)) \<and>
   (seq \<noteq> [] \<and> CHR '']'' \<notin> set seq \<and> CHR ''-'' \<notin> set seq \<longrightarrow>
      (fnmatch nm (CHR ''['' # CHR ''!'' # seq @ CHR '']'' # pat) \<longleftrightarrow>
         nm \<noteq> [] \<and> hd nm \<notin> set seq \<and> fnmatch (tl nm) pat)) \<and>
   (a \<noteq> CHR ''!'' \<and> b \<noteq> CHR '']'' \<longrightarrow>
      (fnmatch nm (CHR ''['' # a # CHR ''-'' # b # CHR '']'' # pat) \<longleftrightarrow>
         nm \<noteq> [] \<and> a \<le> hd nm \<and> hd nm \<le> b \<and> fnmatch (tl nm) pat)) \<and>
   (CHR '']'' \<notin> set pat \<longrightarrow>
      (fnmatch nm (CHR ''['' # pat) \<longleftrightarrow> nm \<noteq> [] \<and> hd nm = CHR ''['' \<and> fnmatch (tl nm) pat)) \<and>
   (c \<notin> set ''*?['' \<longrightarrow>
      (fnmatch nm (c # pat) \<longleftrightarrow> nm \<noteq> [] \<and> hd nm = c \<and> fnmatch (tl nm) pat)) \<and>
   (fnmatch nm [] \<longleftrightarrow> nm = [])"
proof -
  have 0: "p \<in> set (iter_markdown_files fs d pats exts) \<longleftrightarrow>
      p \<in> set (rglob fs d) \<and> is_file fs p \<and> lstrip_chars ''.'' (path_suffix p) \<in> set exts \<and>
      \<not> (\<exists>pat\<in>set pats. fnmatch (rel_posix p d) (normalize_glob pat))"
    by (rule iter_markdown_files_mem)
  have 1: "fnmatch nm (CHR ''*'' # pat) \<longleftrightarrow> (\<exists>k\<le>length nm. fnmatch (drop k nm) pat)"
    unfolding fnmatch_def glob_tokens_star by (rule glob_match_star)
  have 2: "fnmatch nm (CHR ''*'' # CHR ''*'' # pat) \<longleftrightarrow> fnmatch nm (CHR ''*'' # pat)"
    unfolding fnmatch_def glob_tokens_star by (rule glob_match_star_star)
  have 3: "fnmatch nm (CHR ''?'' # pat) \<longleftrightarrow> nm \<noteq> [] \<and> fnmatch (tl nm) pat"
    unfolding fnmatch_def glob_tokens_any by (cases nm) simp_all
  have 4: "seq \<noteq> [] \<and> CHR '']'' \<notin> set seq \<and> CHR ''-'' \<notin> set seq \<and> hd seq \<noteq> CHR ''!'' \<longrightarrow>
      (fnmatch nm (CHR ''['' # seq @ CHR '']'' # pat) \<longleftrightarrow>
         nm \<noteq> [] \<and> hd nm \<in> set seq \<and> fnmatch (tl nm) pat)"
  proof
    assume h: "seq \<noteq> [] \<and> CHR '']'' \<notin> set seq \<and> CHR ''-'' \<notin> set seq \<and> hd seq \<noteq> CHR ''!''"
    then have "glob_tokens (CHR ''['' # seq @ CHR '']'' # pat)
                 = CharSet False (map Single seq) # glob_tokens pat"
      by (intro glob_tokens_set) simp_all
    then show "fnmatch nm (CHR ''['' # seq @ CHR '']'' # pat) \<longleftrightarrow>
         nm \<noteq> [] \<and> hd nm \<in> set seq \<and> fnmatch (tl nm) pat"
      unfolding fnmatch_def by (simp only: glob_match_set list_ex_singles) simp
  qed
  have 5: "seq \<noteq> [] \<and> CHR '']'' \<notin> set seq \<and> CHR ''-'' \<notin> set seq \<longrightarrow>
      (fnmatch nm (CHR ''['' # CHR ''!'' # seq @ CHR '']'' # pat) \<longleftrightarrow>
         nm \<noteq> [] \<and> hd nm \<notin> set seq \<and> fnmatch (tl nm) pat)"
  proof
    assume h: "seq \<noteq> [] \<and> CHR '']'' \<notin> set seq \<and> CHR ''-'' \<notin> set seq"
    then have "glob_tokens (CHR ''['' # CHR ''!'' # seq @ CHR '']'' # pat)
                 = CharSet True (map Single seq) # glob_tokens pat"
      by (intro glob_tokens_negated_set) simp_all
    then show "fnmatch nm (CHR ''['' # CHR ''!'' # seq @ CHR '']'' # pat) \<longleftrightarrow>
         nm \<noteq> [] \<and> hd nm \<notin> set seq \<and> fnmatch (tl nm) pat"
      unfolding fnmatch_def by (simp only: glob_match_set list_ex_singles) simp
  qed
  have 6: "a \<noteq> CHR ''!'' \<and> b \<noteq> CHR '']'' \<longrightarrow>
      (fnmatch nm (CHR ''['' # a # CHR ''-'' # b # CHR '']'' # pat) \<longleftrightarrow>
         nm \<noteq> [] \<and> a \<le> hd nm \<and> hd nm \<le> b \<and> fnmatch (tl nm) pat)"
  proof
    assume h: "a \<noteq> CHR ''!'' \<and> b \<noteq> CHR '']''"
    then have "glob_tokens (CHR ''['' # a # CHR ''-'' # b # CHR '']'' # pat)
                 = CharSet False [Range a b] # glob_tokens pat"
      by (intro glob_tokens_range) simp_all
    then show "fnmatch nm (CHR ''['' # a # CHR ''-'' # b # CHR '']'' # pat) \<longleftrightarrow>
         nm \<noteq> [] \<and> a \<le> hd nm \<and> hd nm \<le> b \<and> fnmatch (tl nm) pat"
      unfolding fnmatch_def by (simp only: glob_match_set) simp
  qed
  have 7: "CHR '']'' \<notin> set pat \<longrightarrow>
      (fnmatch nm (CHR ''['' # pat) \<longleftrightarrow> nm \<noteq> [] \<and> hd nm = CHR ''['' \<and> fnmatch (tl nm) pat)"
  proof
    assume "CHR '']'' \<notin> set pat"
    then have "glob_tokens (CHR ''['' # pat) = Lit (CHR ''['') # glob_tokens pat"
      by (rule glob_tokens_unclosed)
    then show "fnmatch nm (CHR ''['' # pat) \<longleftrightarrow> nm \<noteq> [] \<and> hd nm = CHR ''['' \<and> fnmatch (tl nm) pat"
      unfolding fnmatch_def by (simp only: glob_match_lit)
  qed
  have 8: "c \<notin> set ''*?['' \<longrightarrow>
      (fnmatch nm (c # pat) \<longleftrightarrow> nm \<noteq> [] \<and> hd nm = c \<and> fnmatch (tl nm) pat)"
  proof
    assume "c \<notin> set ''*?[''"
    then have "glob_tokens (c # pat) = Lit c # glob_tokens pat" by (rule glob_tokens_lit)
    then show "fnmatch nm (c # pat) \<longleftrightarrow> nm \<noteq> [] \<and> hd nm = c \<and> fnmatch (tl nm) pat"
      unfolding fnmatch_def by (simp only: glob_match_lit)
  qed
  have 9: "fnmatch nm [] \<longleftrightarrow> nm = []"
    unfolding fnmatch_def by (simp add: glob_match_nil)
  from 0 1 2 3 4 5 6 7 8 9 show ?thesis by (intro conjI)
qed

text \<open>
  The example of the claim: with \<open>keep.md\<close> and \<open>archive/old.md\<close> below the source
  directory, the pattern \<open>archive/**\<close> keeps the first and excludes the second. And one
  name that each kind of set and a literal match, and one that they do not.
\<close>

theorem C6_exclusion_by_fnmatch_witness:
  "[''src'', ''keep.md''] \<in> set (iter_markdown_files
      [([''src''], Dir),
       ([''src'', ''keep.md''], File 0 (Some ''# Keep'')),
       ([''src'', ''archive''], Dir),
       ([''src'', ''archive'', ''old.md''], File 0 (Some ''# Old''))]
      [''src''] [''archive/**''] [''md'']) \<and>
   [''src'', ''archive'', ''old.md''] \<notin> set (iter_markdown_files
      [([''src''], Dir),
       ([''src'', ''keep.md''], File 0 (Some ''# Keep'')),
       ([''src'', ''archive''], Dir),
       ([''src'', ''archive'', ''old.md''], File 0 (Some ''# Old''))]
      [''src''] [''archive/**''] [''md'']) \<and>
   fnmatch ''b.md'' ''[ab].md'' \<and> \<not> fnmatch ''c.md'' ''[ab].md'' \<and>
   fnmatch ''c.md'' ''[!ab].md'' \<and> \<not> fnmatch ''b.md'' ''[!ab].md'' \<and>
   fnmatch ''k.md'' ''[a-z].md'' \<and> \<not> fnmatch ''K.md'' ''[a-z].md'' \<and>
   fnmatch ''[x'' ''[x'' \<and>
   fnmatch ''a.md'' ''a.md'' \<and> \<not> fnmatch ''A.md'' ''a.md''"
proof -
  let ?fs = "[([''src''], Dir),
       ([''src'', ''keep.md''], File 0 (Some ''# Keep'')),
       ([''src'', ''archive''], Dir),
       ([''src'', ''archive'', ''old.md''], File 0 (Some ''# Old''))]"
  have k: "[''src'', ''keep.md''] \<in> set (rglob ?fs [''src'']) \<and> is_file ?fs [''src'', ''keep.md''] \<and>
      lstrip_chars ''.'' (path_suffix [''src'', ''keep.md'']) \<in> set [''md''] \<and>
      \<not> (\<exists>pat\<in>set [''archive/**'']. fnmatch (rel_posix [''src'', ''keep.md''] [''src'']) (normalize_glob pat))"
    by code_simp
  have o: "\<exists>pat\<in>set [''archive/**'']. fnmatch (rel_posix [''src'', ''archive'', ''old.md''] [''src'']) (normalize_glob pat)"
    by code_simp
  have a: "[''src'', ''keep.md''] \<in> set (iter_markdown_files ?fs [''src''] [''archive/**''] [''md''])"
    using C6_exclusion_by_fnmatch[of "[''src'', ''keep.md'']" ?fs "[''src'']" "[''archive/**'']" "[''md'']",
              THEN conjunct1] k
    by (rule iffD2)
  have b: "[''src'', ''archive'', ''old.md''] \<notin> set (iter_markdown_files ?fs [''src''] [''archive/**''] [''md''])"
  proof
    assume "[''src'', ''archive'', ''old.md''] \<in> set (iter_markdown_files ?fs [''src''] [''archive/**''] [''md''])"
    with C6_exclusion_by_fnmatch[of "[''src'', ''archive'', ''old.md'']" ?fs "[''src'']" "[''archive/**'']" "[''md'']",
              THEN conjunct1]
    have "\<not> (\<exists>pat\<in>set [''archive/**'']. fnmatch (rel_posix [''src'', ''archive'', ''old.md''] [''src'']) (normalize_glob pat))"
      by (elim iffD1[elim_format] conjE)
    then show False using o by (rule notE)
  qed
  have md: "fnmatch ''.md'' ''.md''" by code_simp
  have s1: "fnmatch ''b.md'' ''[ab].md''"
    using C6_exclusion_by_fnmatch[where seq = "''ab''" and pat = "''.md''" and a = "CHR ''a''"
        and b = "CHR ''z''" and c = "CHR ''a''" and nm = "''b.md''",
        THEN conjunct2, THEN conjunct2, THEN conjunct2, THEN conjunct2, THEN conjunct1] md
    by simp
  have s2: "\<not> fnmatch ''c.md'' ''[ab].md''"
    using C6_exclusion_by_fnmatch[where seq = "''ab''" and pat = "''.md''" and a = "CHR ''a''"
        and b = "CHR ''z''" and c = "CHR ''a''" and nm = "''c.md''",
        THEN conjunct2, THEN conjunct2, THEN conjunct2, THEN conjunct2, THEN conjunct1]
    by simp
  have n1: "fnmatch ''c.md'' ''[!ab].md''"
    using C6_exclusion_by_fnmatch[where seq = "''ab''" and pat = "''.md''" and a = "CHR ''a''"
        and b = "CHR ''z''" and c = "CHR ''a''" and nm = "''c.md''",
        THEN conjunct2, THEN conjunct2, THEN conjunct2, THEN conjunct2, THEN conjunct2, THEN conjunct1] md
    by simp
  have n2: "\<not> fnmatch ''b.md'' ''[!ab].md''"
    using C6_exclusion_by_fnmatch[where seq = "''ab''" and pat = "''.md''" and a = "CHR ''a''"
        and b = "CHR ''z''" and c = "CHR ''a''" and nm = "''b.md''",
        THEN conjunct2, THEN conjunct2, THEN conjunct2, THEN conjunct2, THEN conjunct2, THEN conjunct1]
    by simp
  have r1: "fnmatch ''k.md'' ''[a-z].md''"
    using C6_exclusion_by_fnmatch[where seq = "''ab''" and pat = "''.md''" and a = "CHR ''a''"
        and b = "CHR ''z''" and c = "CHR ''a''" and nm = "''k.md''",
        THEN conjunct2, THEN conjunct2, THEN conjunct2, THEN conjunct2, THEN conjunct2, THEN conjunct2, THEN conjunct1] md
    by simp
  have r2: "\<not> fnmatch ''K.md'' ''[a-z].md''"
    using C6_exclusion_by_fnmatch[where seq = "''ab''" and pat = "''.md''" and a = "CHR ''a''"
        and b = "CHR ''z''" and c = "CHR ''a''" and nm = "''K.md''",
        THEN conjunct2, THEN conjunct2, THEN conjunct2, THEN conjunct2, THEN conjunct2, THEN conjunct2, THEN conjunct1]
    by simp
  have x: "fnmatch ''x'' ''x''" by code_simp
  have u: "fnmatch ''[x'' ''[x''"
    using C6_exclusion_by_fnmatch[where pat = "''x''" and nm = "''[x''",
        THEN conjunct2, THEN conjunct2, THEN conjunct2, THEN conjunct2, THEN conjunct2, THEN conjunct2, THEN conjunct2, THEN conjunct1] x
    by simp
  have l1: "fnmatch ''a.md'' ''a.md''"
    using C6_exclusion_by_fnmatch[where seq = "''ab''" and pat = "''.md''" and a = "CHR ''a''"
        and b = "CHR ''z''" and c = "CHR ''a''" and nm = "''a.md''",
        THEN conjunct2, THEN conjunct2, THEN conjunct2, THEN conjunct2, THEN conjunct2, THEN conjunct2, THEN conjunct2, THEN conjunct2, THEN conjunct1] md
    by simp
  have l2: "\<not> fnmatch ''A.md'' ''a.md''"
    using C6_exclusion_by_fnmatch[where seq = "''ab''" and pat = "''.md''" and a = "CHR ''a''"
        and b = "CHR ''z''" and c = "CHR ''a''" and nm = "''A.md''",
        THEN conjunct2, THEN conjunct2, THEN conjunct2, THEN conjunct2, THEN conjunct2, THEN conjunct2, THEN conjunct2, THEN conjunct2, THEN conjunct1]
    by simp
  from a b s1 s2 n1 n2 r1 r2 u l1 l2 show ?thesis by (intro conjI)
qed

text \<open>
  Claim C6 as stated fails: \<open>*\<close> crosses the directory separator, so the pattern \<open>*.md\<close>
  also excludes \<open>archive/old.md\<close>, and nothing is discovered.
\<close>

theorem C6_star_crosses_separator_counterexample:
  "fnmatch ''archive/old.md'' ''*.md'' \<and>
   iter_markdown_files
      [([''src''], Dir),
       ([''src'', ''keep.md''], File 0 (Some ''# Keep'')),
       ([''src'', ''archive''], Dir),
       ([''src'', ''archive'', ''old.md''], File 0 (Some ''# Old''))]
      [''src''] [''*.md''] [''md''] = []"
  by code_simp

text \<open>
  Claim C5 at its failing inputs: \<open>lstrip\<close> removes every leading \<open>.\<close> and \<open>/\<close>, not the
  prefix \<open>./\<close>, so the leading dot of \<open>.foo/**\<close> and the leading \<open>../\<close> are lost, and the
  pattern \<open>.foo/**\<close> does not exclude a file below the hidden directory \<open>.foo\<close>.
\<close>

theorem C5_normalize_glob_strips_leading_dots:
  "normalize_glob ''.foo/**'' = ''foo/**'' \<and>
   normalize_glob ''../x/*.md'' = ''x/*.md'' \<and>
   iter_markdown_files
      [([''src''], Dir),
       ([''src'', ''.foo''], Dir),
       ([''src'', ''.foo'', ''a.md''], File 0 (Some ''# A''))]
      [''src''] [''.foo/**''] [''md''] = [[''src'', ''.foo'', ''a.md'']]"
  by code_simp

section \<open>Grouping: the dictionary and the rendered blocks\<close>

lemma group_key_for_under: "prefix d f \<Longrightarrow> group_key_for f d depth = Some (key_of d depth f)"
  by (simp add: group_key_for_def relative_to_def key_of_def Let_def)

lemma setdefault_append_key_list: "map fst (setdefault_append k f g) = add_key k (map fst g)"
proof (induction g)
  case Nil
  show ?case by (simp add: add_key_def)
next
  case (Cons x g)
  obtain k' v where x: "x = (k', v)" by (cases x)
  show ?case
  proof (cases "k' = k")
    case True
    with x show ?thesis by (simp add: add_key_def)
  next
    case False
    with x Cons.IH show ?thesis by (auto simp: add_key_def)
  qed
qed

lemma set_add_key: "set (add_key k ks) = insert k (set ks)"
  by (auto simp: add_key_def)

lemma distinct_add_key: "distinct ks \<Longrightarrow> distinct (add_key k ks)"
  by (simp add: add_key_def)

lemma setdefault_append_members:
  "group_members (setdefault_append k f g) k' =
     (if k' = k then group_members g k @ [f] else group_members g k')"
  by (induction g) (auto simp: group_members_def)

lemma foldl_add_key_set:
  "set (foldl (\<lambda>ks f. add_key (kf f) ks) ks0 files) = set ks0 \<union> kf ` set files"
  by (induction files arbitrary: ks0) (auto simp: set_add_key)

lemma foldl_add_key_distinct:
  "distinct ks0 \<Longrightarrow> distinct (foldl (\<lambda>ks f. add_key (kf f) ks) ks0 files)"
  by (induction files arbitrary: ks0) (simp_all add: distinct_add_key)

lemma group_files_struct:
  assumes "\<forall>f\<in>set files. prefix d f"
  shows "\<exists>g'. group_files d depth files g = Some g' \<and>
           map fst g' = foldl (\<lambda>ks f. add_key (key_of d depth f) ks) (map fst g) files \<and>
           (\<forall>k. group_members g' k = group_members g k @ filter (\<lambda>f. key_of d depth f = k) files)"
  using assms
proof (induction files arbitrary: g)
  case Nil
  show ?case by simp
next
  case (Cons f files)
  from Cons.prems have pf: "prefix d f" and rest: "\<forall>f\<in>set files. prefix d f" by simp_all
  let ?g1 = "setdefault_append (key_of d depth f) f g"
  from Cons.IH[OF rest, of ?g1] obtain g' where g':
    "group_files d depth files ?g1 = Some g'"
    "map fst g' = foldl (\<lambda>ks f. add_key (key_of d depth f) ks) (map fst ?g1) files"
    "\<forall>k. group_members g' k = group_members ?g1 k @ filter (\<lambda>f. key_of d depth f = k) files"
    by blast
  have 1: "group_files d depth (f # files) g = Some g'"
    using g'(1) by (simp add: group_key_for_under[OF pf])
  have 2: "map fst g' = foldl (\<lambda>ks f. add_key (key_of d depth f) ks) (map fst g) (f # files)"
    using g'(2) by (simp add: setdefault_append_key_list)
  have 3: "group_members g' k = group_members g k @ filter (\<lambda>f. key_of d depth f = k) (f # files)" for k
    using g'(3) by (simp add: setdefault_append_members)
  from 1 2 3 show ?case by blast
qed

lemma set_key_order: "set (key_order d depth files) = key_of d depth ` set files"
  by (simp add: key_order_def foldl_add_key_set)

lemma distinct_key_order: "distinct (key_order d depth files)"
  by (simp add: key_order_def foldl_add_key_distinct)

lemma build_list_markdown_subdir:
  assumes "\<forall>f\<in>set files. prefix d f"
  shows "build_list_markdown fs files tgt d GroupSubdir depth level m =
       Some (rstrip (join [NL] (concat (map
               (\<lambda>k. group_header level m k
                     # map (list_item fs (parent tgt)) (filter (\<lambda>f. key_of d depth f = k) files)
                     @ [[]])
               (sort_key lower (key_order d depth files)))))
             @ (if files \<noteq> [] then [NL] else []))"
proof -
  from group_files_struct[OF assms, of depth "[]"] obtain g where g:
    "group_files d depth files [] = Some g"
    "map fst g = key_order d depth files"
    "\<forall>k. group_members g k = filter (\<lambda>f. key_of d depth f = k) files"
    by (auto simp: group_members_def key_order_def)
  let ?keys = "sort_key lower (key_order d depth files)"
  let ?block = "\<lambda>k. group_header level m k
                     # map (list_item fs (parent tgt)) (filter (\<lambda>f. key_of d depth f = k) files)
                     @ [[]]"
  have out: "group_lines fs (parent tgt) level m g = concat (map ?block ?keys)"
    by (simp add: group_lines_def g(2,3))
  have ne: "concat (map ?block ?keys) \<noteq> [] \<longleftrightarrow> files \<noteq> []"
  proof -
    have "concat (map ?block ?keys) \<noteq> [] \<longleftrightarrow> ?keys \<noteq> []" by (cases ?keys) simp_all
    also have "\<dots> \<longleftrightarrow> key_order d depth files \<noteq> []" by (metis length_0_conv length_sort)
    also have "\<dots> \<longleftrightarrow> set (key_order d depth files) \<noteq> {}" by simp
    also have "\<dots> \<longleftrightarrow> files \<noteq> []" unfolding set_key_order by simp
    finally show ?thesis .
  qed
  show ?thesis
    using ne by (simp add: build_list_markdown_def g(1) out Let_def)
qed

lemma group_header_label:
  "group_header level m k =
     replicate (nat (max 1 level)) (CHR ''#'') @ '' '' @
       (if k = [] then apply_case ''Misc'' m else apply_case k m)"
  by (simp add: group_header_def group_title_def)

text \<open>
  Claim C8. In subdirectory grouping, for files below the source directory, the fragment
  is the sequence of the groups' blocks (header, one item per file, an empty line). The
  groups are the keys of the files, each once, in the order in which a stable sort by the
  lower-cased key puts them, which is ascending in the lower-cased key; the items of a
  group are the files of the input list with that key, in the order of the input list.
\<close>

theorem C8_group_order:
  assumes "\<forall>f\<in>set files. prefix d f"
  shows "(\<exists>hdr.
     build_list_markdown fs files tgt d GroupSubdir depth level m =
       Some (rstrip (join [NL] (concat (map
               (\<lambda>k. hdr k
                     # map (list_item fs (parent tgt)) (filter (\<lambda>f. key_of d depth f = k) files)
                     @ [[]])
               (sort_key lower (key_order d depth files)))))
             @ (if files \<noteq> [] then [NL] else []))) \<and>
     sorted (map lower (sort_key lower (key_order d depth files))) \<and>
     distinct (sort_key lower (key_order d depth files)) \<and>
     set (sort_key lower (key_order d depth files)) = key_of d depth ` set files"
proof -
  from build_list_markdown_subdir[OF assms]
  have 1: "\<exists>hdr.
     build_list_markdown fs files tgt d GroupSubdir depth level m =
       Some (rstrip (join [NL] (concat (map
               (\<lambda>k. hdr k
                     # map (list_item fs (parent tgt)) (filter (\<lambda>f. key_of d depth f = k) files)
                     @ [[]])
               (sort_key lower (key_order d depth files)))))
             @ (if files \<noteq> [] then [NL] else []))"
    by (rule exI[of _ "group_header level m"])
  have 2: "sorted (map lower (sort_key lower (key_order d depth files)))" by (rule sorted_sort_key)
  have 3: "distinct (sort_key lower (key_order d depth files))"
    using distinct_key_order by simp
  have 4: "set (sort_key lower (key_order d depth files)) = key_of d depth ` set files"
    using set_key_order by simp
  from 1 2 3 4 show ?thesis by (intro conjI)
qed

text \<open>
  Six files in five groups, among them \<open>a\<close> and \<open>B\<close>, and the Latin-1 letters \<open>0xD6\<close>
  (upper case) and \<open>0xE4\<close> (lower case): the groups come as the empty key, \<open>a\<close>, \<open>B\<close>,
  \<open>0xE4\<close>, \<open>0xD6\<close>, and the two files of \<open>a\<close> keep their order.
\<close>

theorem C8_group_order_witness:
  "(\<exists>hdr.
     build_list_markdown
       [([''src'', ''a'', ''0.md''], File 0 (Some ''# T0'')),
        ([''src'', ''B'', ''1.md''], File 0 (Some ''# T1'')),
        ([''src'', ''a'', ''2.md''], File 0 (Some ''# T2'')),
        ([''src'', [CHR 0xD6], ''3.md''], File 0 (Some ''# T3'')),
        ([''src'', [CHR 0xE4], ''4.md''], File 0 (Some ''# T4'')),
        ([''src'', ''5.md''], File 0 (Some ''# T5''))]
       [[''src'', ''a'', ''0.md''], [''src'', ''B'', ''1.md''], [''src'', ''a'', ''2.md''],
        [''src'', [CHR 0xD6], ''3.md''], [''src'', [CHR 0xE4], ''4.md''], [''src'', ''5.md'']]
       [''README.md''] [''src''] GroupSubdir 1 2 CaseTitle =
       Some (rstrip (join [NL] (concat (map
               (\<lambda>k. hdr k
                     # map (list_item
                              [([''src'', ''a'', ''0.md''], File 0 (Some ''# T0'')),
                               ([''src'', ''B'', ''1.md''], File 0 (Some ''# T1'')),
                               ([''src'', ''a'', ''2.md''], File 0 (Some ''# T2'')),
                               ([''src'', [CHR 0xD6], ''3.md''], File 0 (Some ''# T3'')),
                               ([''src'', [CHR 0xE4], ''4.md''], File 0 (Some ''# T4'')),
                               ([''src'', ''5.md''], File 0 (Some ''# T5''))]
                              (parent [''README.md'']))
                         (filter (\<lambda>f. key_of [''src''] 1 f = k)
                            [[''src'', ''a'', ''0.md''], [''src'', ''B'', ''1.md''], [''src'', ''a'', ''2.md''],
                             [''src'', [CHR 0xD6], ''3.md''], [''src'', [CHR 0xE4], ''4.md''], [''src'', ''5.md'']])
                     @ [[]])
               [[], ''a'', ''B'', [CHR 0xE4], [CHR 0xD6]])))
             @ [NL])) \<and>
   filter (\<lambda>f. key_of [''src''] 1 f = ''a'')
       [[''src'', ''a'', ''0.md''], [''src'', ''B'', ''1.md''], [''src'', ''a'', ''2.md''],
        [''src'', [CHR 0xD6], ''3.md''], [''src'', [CHR 0xE4], ''4.md''], [''src'', ''5.md'']]
     = [[''src'', ''a'', ''0.md''], [''src'', ''a'', ''2.md'']] \<and>
   build_list_markdown
       [([''src'', ''a'', ''0.md''], File 0 (Some ''# T0'')),
        ([''src'', ''B'', ''1.md''], File 0 (Some ''# T1'')),
        ([''src'', ''a'', ''2.md''], File 0 (Some ''# T2'')),
        ([''src'', [CHR 0xD6], ''3.md''], File 0 (Some ''# T3'')),
        ([''src'', [CHR 0xE4], ''4.md''], File 0 (Some ''# T4'')),
        ([''src'', ''5.md''], File 0 (Some ''# T5''))]
       [[''src'', ''a'', ''0.md''], [''src'', ''B'', ''1.md''], [''src'', ''a'', ''2.md''],
        [''src'', [CHR 0xD6], ''3.md''], [''src'', [CHR 0xE4], ''4.md''], [''src'', ''5.md'']]
       [''README.md''] [''src''] GroupSubdir 1 2 CaseTitle
     = Some (''## Misc\<newline>- [T5](src/5.md)\<newline>\<newline>## A\<newline>- [T0](src/a/0.md)\<newline>- [T2](src/a/2.md)\<newline>\<newline>'' @
           ''## B\<newline>- [T1](src/B/1.md)\<newline>\<newline>## '' @ [CHR 0xC4] @ ''\<newline>- [T4](src/'' @ [CHR 0xE4] @ ''/4.md)\<newline>\<newline>'' @
           ''## '' @ [CHR 0xD6] @ ''\<newline>- [T3](src/'' @ [CHR 0xD6] @ ''/3.md)\<newline>'')"
proof -
  let ?fs = "[([''src'', ''a'', ''0.md''], File 0 (Some ''# T0'')),
             ([''src'', ''B'', ''1.md''], File 0 (Some ''# T1'')),
             ([''src'', ''a'', ''2.md''], File 0 (Some ''# T2'')),
             ([''src'', [CHR 0xD6], ''3.md''], File 0 (Some ''# T3'')),
             ([''src'', [CHR 0xE4], ''4.md''], File 0 (Some ''# T4'')),
             ([''src'', ''5.md''], File 0 (Some ''# T5''))]"
  let ?files = "[[''src'', ''a'', ''0.md''], [''src'', ''B'', ''1.md''], [''src'', ''a'', ''2.md''],
                [''src'', [CHR 0xD6], ''3.md''], [''src'', [CHR 0xE4], ''4.md''], [''src'', ''5.md'']]"
  have h: "\<forall>f\<in>set ?files. prefix [''src''] f" by simp
  have k: "sort_key lower (key_order [''src''] 1 ?files) = [[], ''a'', ''B'', [CHR 0xE4], [CHR 0xD6]]"
    by code_simp
  from C8_group_order[OF h, of ?fs "[''README.md'']" 1 2 CaseTitle, THEN conjunct1]
  have 1: "\<exists>hdr.
     build_list_markdown ?fs ?files [''README.md''] [''src''] GroupSubdir 1 2 CaseTitle =
       Some (rstrip (join [NL] (concat (map
               (\<lambda>k. hdr k
                     # map (list_item ?fs (parent [''README.md'']))
                         (filter (\<lambda>f. key_of [''src''] 1 f = k) ?files)
                     @ [[]])
               [[], ''a'', ''B'', [CHR 0xE4], [CHR 0xD6]])))
             @ [NL])"
    unfolding k by simp
  have 2: "filter (\<lambda>f. key_of [''src''] 1 f = ''a'') ?files
             = [[''src'', ''a'', ''0.md''], [''src'', ''a'', ''2.md'']]"
    by code_simp
  have 3: "build_list_markdown ?fs ?files [''README.md''] [''src''] GroupSubdir 1 2 CaseTitle
     = Some (''## Misc\<newline>- [T5](src/5.md)\<newline>\<newline>## A\<newline>- [T0](src/a/0.md)\<newline>- [T2](src/a/2.md)\<newline>\<newline>'' @
           ''## B\<newline>- [T1](src/B/1.md)\<newline>\<newline>## '' @ [CHR 0xC4] @ ''\<newline>- [T4](src/'' @ [CHR 0xE4] @ ''/4.md)\<newline>\<newline>'' @
           ''## '' @ [CHR 0xD6] @ ''\<newline>- [T3](src/'' @ [CHR 0xD6] @ ''/3.md)\<newline>'')"
    by code_simp
  from 1 2 3 show ?thesis by (intro conjI)
qed

text \<open>
  Claim C4, as amended. In subdirectory grouping, the header of every group is the
  repeated \<open>#\<close>, a blank and the title-case transform applied to the group's label: to the
  raw key when the key is not empty, and to the label \<open>Misc\<close> when it is empty. The
  transform leaves \<open>Misc\<close> as it is in the modes \<open>none\<close> and \<open>title\<close>, and gives \<open>MISC\<close> and
  \<open>misc\<close> in the modes \<open>upper\<close> and \<open>lower\<close>. In the modes \<open>upper\<close> and \<open>title\<close> the keys are
  taken without the characters \<open>0xB5\<close> and \<open>0xFF\<close>, whose upper-case forms are not
  characters of the strings here.
\<close>

theorem C4_group_label:
  assumes "\<forall>f\<in>set files. prefix d f"
    and "m = CaseUpper \<or> m = CaseTitle \<longrightarrow> (\<forall>f\<in>set files. upper_below_256 (key_of d depth f))"
  shows "build_list_markdown fs files tgt d GroupSubdir depth level m =
       Some (rstrip (join [NL] (concat (map
               (\<lambda>k. (replicate (nat (max 1 level)) (CHR ''#'') @ '' '' @
                        (if k = [] then apply_case ''Misc'' m else apply_case k m))
                     # map (list_item fs (parent tgt)) (filter (\<lambda>f. key_of d depth f = k) files)
                     @ [[]])
               (sort_key lower (key_order d depth files)))))
             @ (if files \<noteq> [] then [NL] else [])) \<and>
   apply_case ''Misc'' CaseNone = ''Misc'' \<and> apply_case ''Misc'' CaseTitle = ''Misc'' \<and>
   apply_case ''Misc'' CaseUpper = ''MISC'' \<and> apply_case ''Misc'' CaseLower = ''misc''"
proof -
  have 1: "build_list_markdown fs files tgt d GroupSubdir depth level m =
       Some (rstrip (join [NL] (concat (map
               (\<lambda>k. (replicate (nat (max 1 level)) (CHR ''#'') @ '' '' @
                        (if k = [] then apply_case ''Misc'' m else apply_case k m))
                     # map (list_item fs (parent tgt)) (filter (\<lambda>f. key_of d depth f = k) files)
                     @ [[]])
               (sort_key lower (key_order d depth files)))))
             @ (if files \<noteq> [] then [NL] else []))"
    using build_list_markdown_subdir[OF assms(1), of fs tgt depth level m]
    unfolding group_header_label .
  have 2: "apply_case ''Misc'' CaseNone = ''Misc''" by code_simp
  have 3: "apply_case ''Misc'' CaseTitle = ''Misc''" by code_simp
  have 4: "apply_case ''Misc'' CaseUpper = ''MISC''" by code_simp
  have 5: "apply_case ''Misc'' CaseLower = ''misc''" by code_simp
  from 1 2 3 4 5 show ?thesis by (intro conjI)
qed

text \<open>
  Two directories with Latin-1 letters in their names, \<open>0xE4\<close>\<open>rger-weg\<close> and
  \<open>stra\<close>\<open>0xDF\<close>\<open>e\<close>, and a file beside them: the whole fragment in the modes \<open>title\<close> and
  \<open>upper\<close>.
\<close>

theorem C4_group_label_witness:
  "build_list_markdown
       [([''src'', CHR 0xE4 # ''rger-weg'', ''1.md''], File 0 (Some ''# T1'')),
        ([''src'', ''stra'' @ [CHR 0xDF] @ ''e'', ''2.md''], File 0 (Some ''# T2'')),
        ([''src'', ''3.md''], File 0 (Some ''# T3''))]
       [[''src'', CHR 0xE4 # ''rger-weg'', ''1.md''], [''src'', ''stra'' @ [CHR 0xDF] @ ''e'', ''2.md''],
        [''src'', ''3.md'']]
       [''README.md''] [''src''] GroupSubdir 1 2 CaseTitle
     = Some (''## Misc\<newline>- [T3](src/3.md)\<newline>\<newline>## Stra'' @ [CHR 0xDF] @ ''e\<newline>- [T2](src/stra'' @ [CHR 0xDF] @
           ''e/2.md)\<newline>\<newline>## '' @ [CHR 0xC4] @ ''rger Weg\<newline>- [T1](src/'' @ [CHR 0xE4] @
           ''rger-weg/1.md)\<newline>'') \<and>
   build_list_markdown
       [([''src'', CHR 0xE4 # ''rger-weg'', ''1.md''], File 0 (Some ''# T1'')),
        ([''src'', ''stra'' @ [CHR 0xDF] @ ''e'', ''2.md''], File 0 (Some ''# T2'')),
        ([''src'', ''3.md''], File 0 (Some ''# T3''))]
       [[''src'', CHR 0xE4 # ''rger-weg'', ''1.md''], [''src'', ''stra'' @ [CHR 0xDF] @ ''e'', ''2.md''],
        [''src'', ''3.md'']]
       [''README.md''] [''src''] GroupSubdir 1 2 CaseUpper
     = Some (''## MISC\<newline>- [T3](src/3.md)\<newline>\<newline>## STRASSE\<newline>- [T2](src/stra'' @ [CHR 0xDF] @
           ''e/2.md)\<newline>\<newline>## '' @ [CHR 0xC4] @ ''RGER-WEG\<newline>- [T1](src/'' @ [CHR 0xE4] @
           ''rger-weg/1.md)\<newline>'')"
proof -
  let ?fs = "[([''src'', CHR 0xE4 # ''rger-weg'', ''1.md''], File 0 (Some ''# T1'')),
            ([''src'', ''stra'' @ [CHR 0xDF] @ ''e'', ''2.md''], File 0 (Some ''# T2'')),
            ([''src'', ''3.md''], File 0 (Some ''# T3''))]"
  let ?files = "[[''src'', CHR 0xE4 # ''rger-weg'', ''1.md''], [''src'', ''stra'' @ [CHR 0xDF] @ ''e'', ''2.md''],
               [''src'', ''3.md'']]"
  have h: "\<forall>f\<in>set ?files. prefix [''src''] f" by simp
  have ht: "CaseTitle = CaseUpper \<or> CaseTitle = CaseTitle
              \<longrightarrow> (\<forall>f\<in>set ?files. upper_below_256 (key_of [''src''] 1 f))"
    by code_simp
  have hu: "CaseUpper = CaseUpper \<or> CaseUpper = CaseTitle
              \<longrightarrow> (\<forall>f\<in>set ?files. upper_below_256 (key_of [''src''] 1 f))"
    by code_simp
  have et: "Some (rstrip (join [NL] (concat (map
               (\<lambda>k. (replicate (nat (max 1 2)) (CHR ''#'') @ '' '' @
                        (if k = [] then apply_case ''Misc'' CaseTitle else apply_case k CaseTitle))
                     # map (list_item ?fs (parent [''README.md'']))
                         (filter (\<lambda>f. key_of [''src''] 1 f = k) ?files)
                     @ [[]])
               (sort_key lower (key_order [''src''] 1 ?files)))))
             @ (if ?files \<noteq> [] then [NL] else []))
     = Some (''## Misc\<newline>- [T3](src/3.md)\<newline>\<newline>## Stra'' @ [CHR 0xDF] @ ''e\<newline>- [T2](src/stra'' @ [CHR 0xDF] @
           ''e/2.md)\<newline>\<newline>## '' @ [CHR 0xC4] @ ''rger Weg\<newline>- [T1](src/'' @ [CHR 0xE4] @
           ''rger-weg/1.md)\<newline>'')"
    by code_simp
  have eu: "Some (rstrip (join [NL] (concat (map
               (\<lambda>k. (replicate (nat (max 1 2)) (CHR ''#'') @ '' '' @
                        (if k = [] then apply_case ''Misc'' CaseUpper else apply_case k CaseUpper))
                     # map (list_item ?fs (parent [''README.md'']))
                         (filter (\<lambda>f. key_of [''src''] 1 f = k) ?files)
                     @ [[]])
               (sort_key lower (key_order [''src''] 1 ?files)))))
             @ (if ?files \<noteq> [] then [NL] else []))
     = Some (''## MISC\<newline>- [T3](src/3.md)\<newline>\<newline>## STRASSE\<newline>- [T2](src/stra'' @ [CHR 0xDF] @
           ''e/2.md)\<newline>\<newline>## '' @ [CHR 0xC4] @ ''RGER-WEG\<newline>- [T1](src/'' @ [CHR 0xE4] @
           ''rger-weg/1.md)\<newline>'')"
    by code_simp
  from C4_group_label[OF h ht, of ?fs "[''README.md'']" 2, THEN conjunct1] et
  have t: "build_list_markdown ?fs ?files [''README.md''] [''src''] GroupSubdir 1 2 CaseTitle
     = Some (''## Misc\<newline>- [T3](src/3.md)\<newline>\<newline>## Stra'' @ [CHR 0xDF] @ ''e\<newline>- [T2](src/stra'' @ [CHR 0xDF] @
           ''e/2.md)\<newline>\<newline>## '' @ [CHR 0xC4] @ ''rger Weg\<newline>- [T1](src/'' @ [CHR 0xE4] @
           ''rger-weg/1.md)\<newline>'')" by (rule trans)
  from C4_group_label[OF h hu, of ?fs "[''README.md'']" 2, THEN conjunct1] eu
  have u: "build_list_markdown ?fs ?files [''README.md''] [''src''] GroupSubdir 1 2 CaseUpper
     = Some (''## MISC\<newline>- [T3](src/3.md)\<newline>\<newline>## STRASSE\<newline>- [T2](src/stra'' @ [CHR 0xDF] @
           ''e/2.md)\<newline>\<newline>## '' @ [CHR 0xC4] @ ''RGER-WEG\<newline>- [T1](src/'' @ [CHR 0xE4] @
           ''rger-weg/1.md)\<newline>'')" by (rule trans)
  from t u show ?thesis ..
qed

text \<open>
  Claim C4 as stated fails: with the transform \<open>upper\<close>, the group of the empty key is
  headed \<open>MISC\<close>, not by the literal label \<open>Misc\<close>.
\<close>

theorem C4_misc_label_transformed_counterexample:
  "build_list_markdown
     [([''src'', ''003.md''], File 0 (Some ''# Root ADR''))]
     [[''src'', ''003.md'']] [''README.md''] [''src''] GroupSubdir 1 2 CaseUpper
   = Some ''## MISC\<newline>- [Root ADR](src/003.md)\<newline>''"
  by code_simp

section \<open>The run: exit status\<close>












section \<open>The run: a second run\<close>

lemma match_here_span: "match_here st e t = Some m \<Longrightarrow> span_at st e t 0"
proof -
  assume "match_here st e t = Some m"
  from match_here_Some[OF this] obtain k where k: "prefix st t"
    "find_end e (drop (length st) t) = Some k" by blast
  from find_end_sound[OF k(2)] have "prefix e (drop k (drop (length st) t))"
    "k \<le> length t - length st" by simp_all
  then have "prefix e (drop (0 + length st + k) t)" "k \<le> length t - 0 - length st"
    by (simp_all add: add.commute)
  with k(1) show ?thesis unfolding span_at_def by auto
qed

lemma span_at_drop: "i \<le> length s \<Longrightarrow> span_at st e (drop i s) 0 \<Longrightarrow> span_at st e s i"
  unfolding span_at_def by (auto simp: add.commute add.left_commute add.assoc)

lemma search_markers_unique:
  assumes "i \<le> length s" "match_here st e (drop i s) = Some m" "\<forall>i'<i. \<not> span_at st e s i'"
  shows "search_markers st e s = Some (i, i + m)"
proof -
  have sp: "span_at st e s i" using assms(1) match_here_span[OF assms(2)] by (rule span_at_drop)
  then obtain q where "search_markers st e s = Some q" using search_markers_complete by blast
  then obtain i0 j0 where r: "search_markers st e s = Some (i0, j0)" by (cases q) auto
  from search_markers_sound[OF r] have s0: "i0 \<le> length s"
    "match_here st e (drop i0 s) = Some (j0 - i0)" "i0 \<le> j0" "\<forall>i'<i0. \<not> span_at st e s i'"
    by auto
  have "span_at st e s i0" using s0(1) match_here_span[OF s0(2)] by (rule span_at_drop)
  with assms(3) have "\<not> i0 < i" by blast
  moreover from sp s0(4) have "\<not> i < i0" by blast
  ultimately have e: "i0 = i" by simp
  with s0(2) assms(2) have "j0 - i0 = m" by simp
  with s0(3) e have "j0 = i + m" by simp
  with r e show ?thesis by simp
qed

lemma find_end_append: "find_end e s = Some k \<Longrightarrow> find_end e (s @ t) = Some k"
proof (induction s arbitrary: k)
  case Nil
  then have "e = []" by (simp split: if_splits)
  with Nil show ?case by (cases t) (simp_all split: if_splits)
next
  case (Cons c cs)
  show ?case
  proof (cases "prefix e (c # cs)")
    case True
    then have "prefix e ((c # cs) @ t)" by (rule prefix_prefix)
    with True Cons.prems show ?thesis by simp
  next
    case False
    with Cons.prems obtain k' where k': "find_end e cs = Some k'" "k = Suc k'" by auto
    from find_end_sound[OF k'(1)] have "prefix e (drop k' cs)" by simp
    then have le: "length e \<le> length cs" by (auto dest: prefix_length_le)
    have "\<not> prefix e ((c # cs) @ t)"
    proof
      assume "prefix e ((c # cs) @ t)"
      then have "prefix e (c # cs) \<or> (\<exists>us. e = (c # cs) @ us \<and> prefix us t)"
        by (simp only: prefix_append)
      with False obtain us where "e = (c # cs) @ us" by blast
      with le show False by simp
    qed
    with k' Cons.IH show ?thesis by simp
  qed
qed

lemma prefix_inside: "length p \<le> length u \<Longrightarrow> prefix p (u @ v) \<longleftrightarrow> prefix p u"
proof
  assume l: "length p \<le> length u" and "prefix p (u @ v)"
  then have "prefix p u \<or> (\<exists>us. p = u @ us \<and> prefix us v)" by (simp only: prefix_append)
  then show "prefix p u"
  proof
    assume "\<exists>us. p = u @ us \<and> prefix us v"
    then obtain us where "p = u @ us" by blast
    with l show ?thesis by simp
  qed
next
  assume "prefix p u"
  then show "prefix p (u @ v)" by (rule prefix_prefix)
qed

lemma span_at_before:
  assumes "i' < length pre" "span_at st e (pre @ st @ x) i'"
  shows "span_at st e (pre @ st @ mid @ e @ post) i'"
proof -
  from assms(1) have d: "drop i' (pre @ z) = drop i' pre @ z" for z by simp
  from assms(2) have "prefix st (drop i' pre @ st @ x)" unfolding span_at_def d by simp
  then have "prefix st ((drop i' pre @ st) @ x)" by simp
  then have "prefix st (drop i' pre @ st)" by (subst (asm) prefix_inside) simp_all
  then have "prefix st ((drop i' pre @ st) @ mid @ e @ post)" by (rule prefix_prefix)
  then have p: "prefix st (drop i' (pre @ st @ mid @ e @ post))" unfolding d by simp
  let ?n = "length pre - i' + length mid"
  have "i' + length st + ?n = length (pre @ st @ mid)" using assms(1) by simp
  then have "drop (i' + length st + ?n) (pre @ st @ mid @ e @ post) = e @ post"
    by (metis append.assoc append_eq_conv_conj)
  then have e: "prefix e (drop (i' + length st + ?n) (pre @ st @ mid @ e @ post))" by simp
  have n: "?n \<le> length (pre @ st @ mid @ e @ post) - i' - length st" using assms(1) by simp
  have i: "i' \<le> length (pre @ st @ mid @ e @ post)" using assms(1) by simp
  from i p e n show ?thesis unfolding span_at_def by blast
qed

lemma replace_between_markers_idempotent:
  assumes "replace_between_markers c st e r = Inr (new, ch)"
    and "find_end e (NL # r @ e) = Some (Suc (length r))"
  shows "replace_between_markers new st e r = Inr (new, False)"
proof -
  from assms(1) obtain i j where ij: "search_markers st e c = Some (i, j)"
    and new: "new = take i c @ st @ [NL] @ r @ e @ drop j c"
    by (auto simp: replace_between_markers_def Let_def split: option.splits)
  from search_markers_decomp[OF ij] obtain mid where
    c: "c = take i c @ st @ mid @ e @ drop j c" and il: "i \<le> length c" by blast
  let ?pre = "take i c" and ?post = "drop j c"
  have lp: "length ?pre = i" using il by simp
  have inew: "i \<le> length new" unfolding new using lp by simp
  have dnew: "drop i new = st @ (NL # r @ e) @ ?post" unfolding new using lp by simp
  have "find_end e ((NL # r @ e) @ ?post) = Some (Suc (length r))"
    using assms(2) by (rule find_end_append)
  then have m: "match_here st e (drop i new) = Some (length st + Suc (length r) + length e)"
    unfolding dnew by (simp add: match_here_def)
  have nb: "\<forall>i'<i. \<not> span_at st e new i'"
  proof (intro allI impI notI)
    fix i' assume "i' < i" and s: "span_at st e new i'"
    then have l: "i' < length ?pre" using lp by simp
    from s have "span_at st e (?pre @ st @ ([NL] @ r @ e @ ?post)) i'" unfolding new .
    from span_at_before[OF l this, of mid ?post] have "span_at st e c i'" using c by simp
    with search_markers_sound[OF ij] \<open>i' < i\<close> show False by blast
  qed
  from search_markers_unique[OF inew m nb]
  have sn: "search_markers st e new = Some (i, i + (length st + Suc (length r) + length e))" .
  have t: "take i new = ?pre" unfolding new using lp by simp
  have "drop (i + (length st + Suc (length r) + length e)) new
          = drop (length st + Suc (length r) + length e) (drop i new)"
    by (simp add: add.commute)
  also have "\<dots> = ?post" unfolding dnew by simp
  finally have d: "drop (i + (length st + Suc (length r) + length e)) new = ?post" .
  show ?thesis
    unfolding replace_between_markers_def sn using t d new by (simp add: Let_def)
qed


lemma no_early_end:
  assumes "\<forall>u v. s @ e = u @ e @ v \<longrightarrow> length s \<le> length u"
  shows "find_end e (s @ e) = Some (length s)"
proof -
  have p: "prefix e (drop (length s) (s @ e))" by simp
  have l: "length s \<le> length (s @ e)" by simp
  from find_end_complete[OF p l] obtain k where k: "find_end e (s @ e) = Some k" by blast
  from find_end_least[OF k p l] have 1: "k \<le> length s" .
  from find_end_sound[OF k] have pk: "prefix e (drop k (s @ e))" and kl: "k \<le> length (s @ e)"
    by simp_all
  from prefix_drop_decomp[OF pk kl]
  have "s @ e = take k (s @ e) @ e @ drop (k + length e) (s @ e)" .
  with assms have "length s \<le> length (take k (s @ e))" by blast
  with kl have "length s \<le> k" by simp
  with 1 k show ?thesis by simp
qed

lemma map_of_rewrite:
  "map_of (map (\<lambda>(q, n). if q = p then (q, v) else (q, n)) fs) q =
     (if q = p then map_option (\<lambda>n. v) (map_of fs p) else map_of fs q)"
  by (induction fs) auto

lemma write_text_keys: "exists fs p \<Longrightarrow> map fst (write_text fs p s t) = map fst fs"
  by (auto simp: write_text_def)

lemma map_of_write_text:
  "exists fs p \<Longrightarrow>
     map_of (write_text fs p s t) q = (if q = p then Some (File t (Some s)) else map_of fs q)"
  by (auto simp: write_text_def map_of_rewrite exists_def)

lemma exists_write_text: "exists fs p \<Longrightarrow> exists (write_text fs p s t) q = exists fs q"
  by (auto simp: exists_def map_of_write_text)

lemma rglob_write_text: "exists fs p \<Longrightarrow> rglob (write_text fs p s t) d = rglob fs d"
  by (simp add: rglob_def write_text_keys)

lemma is_file_exists: "is_file fs p \<Longrightarrow> exists fs p"
  by (auto simp: is_file_def exists_def split: option.splits)

lemma read_text_is_file: "read_text fs p = Some x \<Longrightarrow> is_file fs p"
  by (auto simp: is_file_def read_text_def split: option.splits node.splits)

lemma is_file_write_text: "is_file fs p \<Longrightarrow> is_file (write_text fs p s t) q = is_file fs q"
  by (frule is_file_exists) (auto simp: is_file_def map_of_write_text)

lemma read_text_write_text_other:
  "exists fs p \<Longrightarrow> q \<noteq> p \<Longrightarrow> read_text (write_text fs p s t) q = read_text fs q"
  by (simp add: read_text_def map_of_write_text)

lemma universal_newlines_id: "CR \<notin> set s \<Longrightarrow> universal_newlines s = s"
  by (induction s rule: universal_newlines.induct) auto

lemma universal_newlines_no_cr: "CR \<notin> set (universal_newlines s)"
  by (induction s rule: universal_newlines.induct) auto

lemma read_text_no_cr: "read_text fs p = Some x \<Longrightarrow> CR \<notin> set x"
  by (auto simp: read_text_def universal_newlines_no_cr split: option.splits node.splits)

lemma read_text_write_text_same:
  "exists fs p \<Longrightarrow> CR \<notin> set s \<Longrightarrow> read_text (write_text fs p s t) p = Some s"
  by (simp add: read_text_def map_of_write_text universal_newlines_id)

lemma replace_between_markers_chars:
  assumes "replace_between_markers c st e r = Inr (new, ch)"
  shows "set new \<subseteq> set c \<union> insert NL (set r)"
proof -
  from assms obtain i j where ij: "search_markers st e c = Some (i, j)"
    and new: "new = take i c @ st @ [NL] @ r @ e @ drop j c"
    by (auto simp: replace_between_markers_def Let_def split: option.splits)
  from search_markers_decomp[OF ij] obtain mid where
    c: "c = take i c @ st @ mid @ e @ drop j c" by blast
  have "set (take i c @ st @ mid @ e @ drop j c) = set c" using c by (rule arg_cong[symmetric])
  then have "set st \<subseteq> set c" "set e \<subseteq> set c" by auto
  moreover have "set (take i c) \<subseteq> set c" by (rule set_take_subset)
  moreover have "set (drop j c) \<subseteq> set c" by (rule set_drop_subset)
  ultimately show ?thesis unfolding new by auto
qed

lemma iter_markdown_files_write_text:
  "is_file fs p \<Longrightarrow>
     iter_markdown_files (write_text fs p s t) d ex exts = iter_markdown_files fs d ex exts"
  by (simp add: iter_markdown_files_def is_file_write_text rglob_write_text is_file_exists)

lemma insort_key_agree:
  "f x = g x \<Longrightarrow> \<forall>y\<in>set ys. f y = g y \<Longrightarrow> insort_key f x ys = insort_key g x ys"
  by (induction ys) simp_all

lemma sort_key_agree: "\<forall>x\<in>set xs. f x = g x \<Longrightarrow> sort_key f xs = sort_key g xs"
proof (induction xs)
  case Nil
  show ?case by simp
next
  case (Cons x xs)
  then have ih: "sort_key f xs = sort_key g xs" by simp
  have "insort_key f x (sort_key g xs) = insort_key g x (sort_key g xs)"
    by (rule insort_key_agree) (use Cons.prems in simp_all)
  with ih show ?case by simp
qed

lemma sort_key_of_write_text:
  "exists fs p \<Longrightarrow> q \<noteq> p \<Longrightarrow> sort_key_of m (write_text fs p s t) q = sort_key_of m fs q"
  by (cases m) (simp_all add: sort_key_of_def map_of_write_text)

lemma discovered_write_text:
  assumes "is_file fs p" "p \<notin> set (discovered a fs)"
  shows "discovered a (write_text fs p s t) = discovered a fs"
proof -
  let ?xs = "iter_markdown_files fs (src_dir a) (exclude a) (parse_extensions (extensions a))"
  from assms(1) have ex: "exists fs p" by (rule is_file_exists)
  from assms(2) have "p \<notin> set ?xs" by (simp add: discovered_def)
  have "\<forall>x\<in>set ?xs. sort_key_of (sort_by a) (write_text fs p s t) x = sort_key_of (sort_by a) fs x"
  proof
    fix x assume "x \<in> set ?xs"
    with \<open>p \<notin> set ?xs\<close> have "x \<noteq> p" by blast
    with ex show "sort_key_of (sort_by a) (write_text fs p s t) x = sort_key_of (sort_by a) fs x"
      by (rule sort_key_of_write_text)
  qed
  then have "sort_key (sort_key_of (sort_by a) (write_text fs p s t)) ?xs
               = sort_key (sort_key_of (sort_by a) fs) ?xs"
    by (rule sort_key_agree)
  then show ?thesis
    by (simp add: discovered_def iter_markdown_files_write_text[OF assms(1)])
qed

lemma title_for_write_text:
  "exists fs p \<Longrightarrow> q \<noteq> p \<Longrightarrow> title_for (write_text fs p s t) q = title_for fs q"
  by (simp add: title_for_def read_text_write_text_other)

lemma setdefault_append_members_subset:
  "set (group_members (setdefault_append k f g) k') \<subseteq> insert f (set (group_members g k'))"
  by (auto simp: setdefault_append_members)

lemma group_files_members_subset:
  "group_files d depth files g = Some g' \<Longrightarrow>
     set (group_members g' k) \<subseteq> set (group_members g k) \<union> set files"
proof (induction files arbitrary: g)
  case Nil
  then show ?case by simp
next
  case (Cons f files)
  from Cons.prems obtain key where key: "group_key_for f d depth = Some key"
    "group_files d depth files (setdefault_append key f g) = Some g'"
    by (auto split: option.splits)
  from Cons.IH[OF key(2)]
  have "set (group_members g' k) \<subseteq> set (group_members (setdefault_append key f g) k) \<union> set files" .
  also have "\<dots> \<subseteq> insert f (set (group_members g k)) \<union> set files"
    using setdefault_append_members_subset[of key f g k] by blast
  finally show ?case by auto
qed

lemma build_list_markdown_agree:
  assumes "\<forall>f\<in>set files. title_for fs' f = title_for fs f"
  shows "build_list_markdown fs' files tgt d gby depth level m
           = build_list_markdown fs files tgt d gby depth level m"
proof -
  have li: "list_item fs' x f = list_item fs x f" if "f \<in> set files" for f x
    using assms that by (simp add: list_item_def)
  show ?thesis
  proof (cases gby)
    case GroupNone
    have me: "map (list_item fs' (parent tgt)) files = map (list_item fs (parent tgt)) files"
      using li by simp
    show ?thesis unfolding build_list_markdown_def Let_def GroupNone me by simp
  next
    case GroupSubdir
    show ?thesis
    proof (cases "group_files d depth files []")
      case None
      with GroupSubdir show ?thesis by (simp add: build_list_markdown_def)
    next
      case (Some g)
      have "set (group_members g k) \<subseteq> set files" for k
        using group_files_members_subset[OF Some, of k] by (simp add: group_members_def)
      then have mk: "map (list_item fs' (parent tgt)) (group_members g k)
                   = map (list_item fs (parent tgt)) (group_members g k)" for k
        using li by (intro map_cong) auto
      have "group_lines fs' (parent tgt) level m g = group_lines fs (parent tgt) level m g"
        unfolding group_lines_def mk ..
      with GroupSubdir Some show ?thesis by (simp add: build_list_markdown_def Let_def)
    qed
  qed
qed

lemma rendered_write_text:
  assumes "is_file fs (target_file a)" "target_file a \<notin> set (discovered a fs)"
  shows "rendered a (write_text fs (target_file a) s t) = rendered a fs"
proof -
  from assms(1) have ex: "exists fs (target_file a)" by (rule is_file_exists)
  have d: "discovered a (write_text fs (target_file a) s t) = discovered a fs"
    using assms by (rule discovered_write_text)
  have "\<forall>f\<in>set (discovered a fs).
          title_for (write_text fs (target_file a) s t) f = title_for fs f"
  proof
    fix f assume "f \<in> set (discovered a fs)"
    with assms(2) have "f \<noteq> target_file a" by blast
    with ex show "title_for (write_text fs (target_file a) s t) f = title_for fs f"
      by (rule title_for_write_text)
  qed
  then show ?thesis unfolding rendered_def d by (rule build_list_markdown_agree)
qed


lemma no_early_end_conv:
  assumes "find_end e (s @ e) = Some (length s)"
  shows "\<forall>u v. s @ e = u @ e @ v \<longrightarrow> length s \<le> length u"
proof (intro allI impI)
  fix u v assume d: "s @ e = u @ e @ v"
  then have "prefix e (drop (length u) (s @ e))" by simp
  moreover from d have "length u \<le> length (s @ e)" by simp
  ultimately show "length s \<le> length u" using find_end_least[OF assms] by blast
qed

lemma main_success:
  assumes "main a fs t = (Exit n r, fs')" "r = Updated \<or> r = NoChangesNeeded"
  shows "\<exists>md original updated changed.
     exists fs (src_dir a) \<and> exists fs (target_file a) \<and> rendered a fs = Some md \<and>
     read_text fs (target_file a) = Some original \<and>
     replace_between_markers original (marker_start a) (marker_end a) md = Inr (updated, changed) \<and>
     fs' = (if changed then write_text fs (target_file a) updated t else fs)"
proof -
  from assms have 1: "exists fs (src_dir a)" "exists fs (target_file a)"
    by (auto simp: main_def split: if_splits)
  from assms 1 obtain md where 2: "rendered a fs = Some md"
    by (auto simp: main_def split: option.splits)
  from assms 1 2 obtain original where 3: "read_text fs (target_file a) = Some original"
    by (auto simp: main_def split: option.splits)
  from assms 1 2 3 obtain updated changed where
    4: "replace_between_markers original (marker_start a) (marker_end a) md = Inr (updated, changed)"
    by (auto simp: main_def split: sum.splits)
  from assms 1 2 3 4 have "fs' = (if changed then write_text fs (target_file a) updated t else fs)"
    by (auto simp: main_def split: if_splits)
  with 1 2 3 4 show ?thesis by blast
qed

lemma main_eval:
  assumes "exists fs (src_dir a)" "exists fs (target_file a)" "rendered a fs = Some md"
    "read_text fs (target_file a) = Some original"
    "replace_between_markers original (marker_start a) (marker_end a) md = Inr (updated, changed)"
  shows "main a fs t =
     (if changed
      then (Exit (if no_fail_on_change a then 0 else 1) Updated,
            write_text fs (target_file a) updated t)
      else (Exit 0 NoChangesNeeded, fs))"
  using assms by (simp add: main_def)

lemma replace_between_markers_flag:
  "replace_between_markers c st e r = Inr (new, ch) \<Longrightarrow> ch = (new \<noteq> c)"
  by (auto simp: replace_between_markers_def Let_def split: option.splits)

text \<open>
  Claim C3, as amended. Let a first run succeed (it updates the target file or needs no
  change), let the target file not be one of the discovered files, let the end marker
  not occur in the newline, the fragment and the end marker before its final position,
  and let the fragment hold no carriage return. Then a second run on the file system that
  the first run leaves renders the same fragment, its substitution returns the content
  unchanged with the flag false, and it reports that no changes are needed, with
  status 0.
\<close>

theorem C3_second_run_no_changes:
  assumes "main a fs t1 = (Exit n r, fs')" and "r = Updated \<or> r = NoChangesNeeded"
    and "target_file a \<notin> set (discovered a fs)"
    and "rendered a fs = Some md"
    and "\<forall>u v. NL # md @ marker_end a = u @ marker_end a @ v \<longrightarrow> Suc (length md) \<le> length u"
    and "CR \<notin> set md"
  shows "main a fs' t2 = (Exit 0 NoChangesNeeded, fs') \<and> rendered a fs' = Some md \<and>
     (\<exists>content. read_text fs' (target_file a) = Some content \<and>
        replace_between_markers content (marker_start a) (marker_end a) md = Inr (content, False))"
proof -
  from main_success[OF assms(1,2)] assms(4) obtain original updated changed where
    m: "exists fs (src_dir a)" "exists fs (target_file a)"
       "read_text fs (target_file a) = Some original"
       "replace_between_markers original (marker_start a) (marker_end a) md = Inr (updated, changed)"
       "fs' = (if changed then write_text fs (target_file a) updated t1 else fs)"
    by auto
  from replace_between_markers_flag[OF m(4)] have ch: "changed = (updated \<noteq> original)" .
  show ?thesis
  proof (cases changed)
    case False
    with ch have u: "updated = original" by simp
    from False m(5) have fs': "fs' = fs" by simp
    from main_eval[OF m(1,2) assms(4) m(3,4)] False
    have "main a fs t2 = (Exit 0 NoChangesNeeded, fs)" by simp
    with fs' assms(4) m(3,4) u False show ?thesis by auto
  next
    case True
    with m(5) have fs': "fs' = write_text fs (target_file a) updated t1" by simp
    have f: "is_file fs (target_file a)" using m(3) by (rule read_text_is_file)
    have r: "rendered a fs' = Some md"
      unfolding fs' using rendered_write_text[OF f assms(3)] assms(4) by simp
    have e1: "exists fs' (src_dir a)" unfolding fs' using m(1,2) by (simp add: exists_write_text)
    have e2: "exists fs' (target_file a)" unfolding fs' using m(2) by (simp add: exists_write_text)
    have "set updated \<subseteq> set original \<union> insert NL (set md)"
      using m(4) by (rule replace_between_markers_chars)
    with read_text_no_cr[OF m(3)] assms(6) have nc: "CR \<notin> set updated" by auto
    have rd: "read_text fs' (target_file a) = Some updated"
      unfolding fs' using m(2) nc by (rule read_text_write_text_same)
    have "\<forall>u v. (NL # md) @ marker_end a = u @ marker_end a @ v \<longrightarrow> length (NL # md) \<le> length u"
      using assms(5) by simp
    then have "find_end (marker_end a) ((NL # md) @ marker_end a) = Some (length (NL # md))"
      by (rule no_early_end)
    then have fe: "find_end (marker_end a) (NL # md @ marker_end a) = Some (Suc (length md))"
      by simp
    from replace_between_markers_idempotent[OF m(4) fe]
    have id: "replace_between_markers updated (marker_start a) (marker_end a) md = Inr (updated, False)" .
    from main_eval[OF e1 e2 r rd id] have "main a fs' t2 = (Exit 0 NoChangesNeeded, fs')" by simp
    with r rd id show ?thesis by blast
  qed
qed

theorem C3_second_run_no_changes_witness:
  "main
     \<lparr>src_dir = [''r'', ''docs''], target_file = [''r'', ''README.md''], marker_start = ''<s>'',
      marker_end = ''<e>'', exclude = [], extensions = ''md,MD'', sort_by = SortName,
      no_fail_on_change = False, group_by = GroupNone, group_depth = 1,
      group_heading_level = 2, group_title_case = CaseTitle\<rparr>
     [([''r''], Dir), ([''r'', ''docs''], Dir),
      ([''r'', ''docs'', ''a.md''], File 0 (Some ''# A'')),
      ([''r'', ''README.md''], File 1 (Some ''<s>\<newline>- [A](docs/a.md)\<newline><e>''))] 2
   = (Exit 0 NoChangesNeeded,
     [([''r''], Dir), ([''r'', ''docs''], Dir),
      ([''r'', ''docs'', ''a.md''], File 0 (Some ''# A'')),
      ([''r'', ''README.md''], File 1 (Some ''<s>\<newline>- [A](docs/a.md)\<newline><e>''))])"
proof -
  let ?a = "\<lparr>src_dir = [''r'', ''docs''], target_file = [''r'', ''README.md''], marker_start = ''<s>'',
      marker_end = ''<e>'', exclude = [], extensions = ''md,MD'', sort_by = SortName,
      no_fail_on_change = False, group_by = GroupNone, group_depth = 1,
      group_heading_level = 2, group_title_case = CaseTitle\<rparr>"
  let ?fs = "[([''r''], Dir), ([''r'', ''docs''], Dir),
      ([''r'', ''docs'', ''a.md''], File 0 (Some ''# A'')),
      ([''r'', ''README.md''], File 0 (Some ''<s>old<e>''))]"
  let ?fs1 = "[([''r''], Dir), ([''r'', ''docs''], Dir),
      ([''r'', ''docs'', ''a.md''], File 0 (Some ''# A'')),
      ([''r'', ''README.md''], File 1 (Some ''<s>\<newline>- [A](docs/a.md)\<newline><e>''))]"
  have 1: "main ?a ?fs 1 = (Exit 1 Updated, ?fs1)" by code_simp
  have 2: "Updated = Updated \<or> Updated = NoChangesNeeded" by simp
  have 3: "target_file ?a \<notin> set (discovered ?a ?fs)" by code_simp
  have 4: "rendered ?a ?fs = Some ''- [A](docs/a.md)\<newline>''" by code_simp
  have "find_end ''<e>'' ((NL # ''- [A](docs/a.md)\<newline>'') @ ''<e>'') = Some (length (NL # ''- [A](docs/a.md)\<newline>''))" by code_simp
  then have "\<forall>u v. (NL # ''- [A](docs/a.md)\<newline>'') @ ''<e>'' = u @ ''<e>'' @ v \<longrightarrow> length (NL # ''- [A](docs/a.md)\<newline>'') \<le> length u"
    by (rule no_early_end_conv)
  then have 5: "\<forall>u v. NL # ''- [A](docs/a.md)\<newline>'' @ marker_end ?a = u @ marker_end ?a @ v
                  \<longrightarrow> Suc (length ''- [A](docs/a.md)\<newline>'') \<le> length u"
    by simp
  have 6: "CR \<notin> set ''- [A](docs/a.md)\<newline>''" by simp
  from C3_second_run_no_changes[OF 1 2 3 4 5 6, of 2] show ?thesis by (rule conjunct1)
qed

text \<open>
  Claim C3 as stated fails, in three ways. In the first run pair a document's title
  holds the end marker, so the second run's span ends inside the list written by the
  first run and the content grows. In the second run pair the target file lies in the
  source directory and the group headers have level 1, so the header written by the first
  run becomes the title of the target file in the second run. In the third run pair the
  name of a document holds a carriage return, which the link of the fragment keeps and
  which the second run reads back from the target file as a newline. The three second
  runs update the file again and exit with status 1.
\<close>

theorem C3_second_run_changes_counterexample:
  "fst (main
     \<lparr>src_dir = [''r'', ''docs''], target_file = [''r'', ''README.md''],
      marker_start = ''<!--adrlist-->'', marker_end = ''<!--adrliststop-->'', exclude = [],
      extensions = ''md,MD'', sort_by = SortName, no_fail_on_change = False,
      group_by = GroupNone, group_depth = 1, group_heading_level = 2,
      group_title_case = CaseTitle\<rparr>
     [([''r''], Dir), ([''r'', ''docs''], Dir),
      ([''r'', ''docs'', ''a.md''], File 0 (Some ''# <!--adrliststop-->'')),
      ([''r'', ''README.md''], File 0 (Some ''<!--adrlist-->\<newline><!--adrliststop-->\<newline>''))] 1) = Exit 1 Updated \<and>
   fst (main
     \<lparr>src_dir = [''r'', ''docs''], target_file = [''r'', ''README.md''],
      marker_start = ''<!--adrlist-->'', marker_end = ''<!--adrliststop-->'', exclude = [],
      extensions = ''md,MD'', sort_by = SortName, no_fail_on_change = False,
      group_by = GroupNone, group_depth = 1, group_heading_level = 2,
      group_title_case = CaseTitle\<rparr>
     (snd (main
       \<lparr>src_dir = [''r'', ''docs''], target_file = [''r'', ''README.md''],
      marker_start = ''<!--adrlist-->'', marker_end = ''<!--adrliststop-->'', exclude = [],
      extensions = ''md,MD'', sort_by = SortName, no_fail_on_change = False,
      group_by = GroupNone, group_depth = 1, group_heading_level = 2,
      group_title_case = CaseTitle\<rparr>
       [([''r''], Dir), ([''r'', ''docs''], Dir),
      ([''r'', ''docs'', ''a.md''], File 0 (Some ''# <!--adrliststop-->'')),
      ([''r'', ''README.md''], File 0 (Some ''<!--adrlist-->\<newline><!--adrliststop-->\<newline>''))] 1)) 2) = Exit 1 Updated \<and>
   fst (main
     \<lparr>src_dir = [''r'', ''docs''], target_file = [''r'', ''docs'', ''README.md''],
      marker_start = ''<!--adrlist-->'', marker_end = ''<!--adrliststop-->'', exclude = [],
      extensions = ''md,MD'', sort_by = SortName, no_fail_on_change = False,
      group_by = GroupSubdir, group_depth = 1, group_heading_level = 1,
      group_title_case = CaseTitle\<rparr>
     [([''r''], Dir), ([''r'', ''docs''], Dir),
      ([''r'', ''docs'', ''README.md''],
       File 0 (Some ''Intro\<newline><!--adrlist-->\<newline><!--adrliststop-->\<newline>''))] 1) = Exit 1 Updated \<and>
   fst (main
     \<lparr>src_dir = [''r'', ''docs''], target_file = [''r'', ''docs'', ''README.md''],
      marker_start = ''<!--adrlist-->'', marker_end = ''<!--adrliststop-->'', exclude = [],
      extensions = ''md,MD'', sort_by = SortName, no_fail_on_change = False,
      group_by = GroupSubdir, group_depth = 1, group_heading_level = 1,
      group_title_case = CaseTitle\<rparr>
     (snd (main
       \<lparr>src_dir = [''r'', ''docs''], target_file = [''r'', ''docs'', ''README.md''],
      marker_start = ''<!--adrlist-->'', marker_end = ''<!--adrliststop-->'', exclude = [],
      extensions = ''md,MD'', sort_by = SortName, no_fail_on_change = False,
      group_by = GroupSubdir, group_depth = 1, group_heading_level = 1,
      group_title_case = CaseTitle\<rparr>
       [([''r''], Dir), ([''r'', ''docs''], Dir),
      ([''r'', ''docs'', ''README.md''],
       File 0 (Some ''Intro\<newline><!--adrlist-->\<newline><!--adrliststop-->\<newline>''))] 1)) 2) = Exit 1 Updated \<and>
   fst (main
     \<lparr>src_dir = [''r'', ''docs''], target_file = [''r'', ''README.md''],
      marker_start = ''<!--adrlist-->'', marker_end = ''<!--adrliststop-->'', exclude = [],
      extensions = ''md,MD'', sort_by = SortName, no_fail_on_change = False,
      group_by = GroupNone, group_depth = 1, group_heading_level = 2,
      group_title_case = CaseTitle\<rparr>
     [([''r''], Dir), ([''r'', ''docs''], Dir),
      ([''r'', ''docs'', ''a'' @ [CR] @ ''b.md''], File 0 (Some ''# A'')),
      ([''r'', ''README.md''], File 0 (Some ''<!--adrlist-->\<newline><!--adrliststop-->\<newline>''))] 1) = Exit 1 Updated \<and>
   fst (main
     \<lparr>src_dir = [''r'', ''docs''], target_file = [''r'', ''README.md''],
      marker_start = ''<!--adrlist-->'', marker_end = ''<!--adrliststop-->'', exclude = [],
      extensions = ''md,MD'', sort_by = SortName, no_fail_on_change = False,
      group_by = GroupNone, group_depth = 1, group_heading_level = 2,
      group_title_case = CaseTitle\<rparr>
     (snd (main
       \<lparr>src_dir = [''r'', ''docs''], target_file = [''r'', ''README.md''],
      marker_start = ''<!--adrlist-->'', marker_end = ''<!--adrliststop-->'', exclude = [],
      extensions = ''md,MD'', sort_by = SortName, no_fail_on_change = False,
      group_by = GroupNone, group_depth = 1, group_heading_level = 2,
      group_title_case = CaseTitle\<rparr>
       [([''r''], Dir), ([''r'', ''docs''], Dir),
      ([''r'', ''docs'', ''a'' @ [CR] @ ''b.md''], File 0 (Some ''# A'')),
      ([''r'', ''README.md''], File 0 (Some ''<!--adrlist-->\<newline><!--adrliststop-->\<newline>''))] 1)) 2) = Exit 1 Updated"
  by code_simp

end
